theory Spec2Isabelle
  imports Complex_Main
begin

section \<open>The rain-on-glass fragment shader (src/components/RainShader.tsx)\<close>

text \<open>
  The shader's \<^verbatim>\<open>float\<close> is modelled as \<^typ>\<open>real\<close>: the theorems below are about the
  shader's arithmetic, not about the rounding of a particular GPU. A \<^verbatim>\<open>vec2\<close> is a pair and
  a \<^verbatim>\<open>vec3\<close> a triple of reals; swizzles and component-wise operators are written out.
\<close>

type_synonym vec2 = "real \<times> real"
type_synonym vec3 = "real \<times> real \<times> real"

subsection \<open>GLSL built-ins used by the shader\<close>

definition fract :: "real \<Rightarrow> real" where
  "fract x = x - of_int \<lfloor>x\<rfloor>"

definition floorf :: "real \<Rightarrow> real" where
  "floorf x = of_int \<lfloor>x\<rfloor>"

definition clamp :: "real \<Rightarrow> real \<Rightarrow> real \<Rightarrow> real" where
  "clamp x lo hi = min (max x lo) hi"

text \<open>
  \<^verbatim>\<open>smoothstep(edge0, edge1, x)\<close>: Hermite interpolation of the clamped ratio. The shader
  calls it with \<^verbatim>\<open>edge0 > edge1\<close> as well (a falling edge), where the same formula is what
  implementations compute.
\<close>

definition smoothstep :: "real \<Rightarrow> real \<Rightarrow> real \<Rightarrow> real" where
  "smoothstep edge0 edge1 x =
     (let t = clamp ((x - edge0) / (edge1 - edge0)) 0 1 in t * t * (3 - 2 * t))"

text \<open>\<^verbatim>\<open>#define S(a, b, t) smoothstep(a, b, t)\<close>\<close>

definition S :: "real \<Rightarrow> real \<Rightarrow> real \<Rightarrow> real" where
  "S a b t = smoothstep a b t"

definition mix :: "real \<Rightarrow> real \<Rightarrow> real \<Rightarrow> real" where
  "mix a b t = a * (1 - t) + b * t"

definition mix3 :: "vec3 \<Rightarrow> vec3 \<Rightarrow> real \<Rightarrow> vec3" where
  "mix3 a b t =
     (case a of (ax, ay, az) \<Rightarrow> case b of (bx, by, bz) \<Rightarrow> (mix ax bx t, mix ay by t, mix az bz t))"

definition length2 :: "vec2 \<Rightarrow> real" where
  "length2 v = (case v of (vx, vy) \<Rightarrow> sqrt (vx * vx + vy * vy))"

definition length3 :: "vec3 \<Rightarrow> real" where
  "length3 v = (case v of (vx, vy, vz) \<Rightarrow> sqrt (vx * vx + vy * vy + vz * vz))"

definition dot3 :: "vec3 \<Rightarrow> vec3 \<Rightarrow> real" where
  "dot3 a b = (case a of (ax, ay, az) \<Rightarrow> case b of (bx, by, bz) \<Rightarrow> ax * bx + ay * by + az * bz)"

definition scale3 :: "vec3 \<Rightarrow> real \<Rightarrow> vec3" where
  "scale3 v k = (case v of (vx, vy, vz) \<Rightarrow> (vx * k, vy * k, vz * k))"

definition add3 :: "vec3 \<Rightarrow> vec3 \<Rightarrow> vec3" where
  "add3 a b = (case a of (ax, ay, az) \<Rightarrow> case b of (bx, by, bz) \<Rightarrow> (ax + bx, ay + by, az + bz))"

definition adds3 :: "vec3 \<Rightarrow> real \<Rightarrow> vec3" where
  "adds3 v k = (case v of (vx, vy, vz) \<Rightarrow> (vx + k, vy + k, vz + k))"

definition normalize3 :: "vec3 \<Rightarrow> vec3" where
  "normalize3 v = (case v of (vx, vy, vz) \<Rightarrow> (vx / length3 v, vy / length3 v, vz / length3 v))"

definition reflect3 :: "vec3 \<Rightarrow> vec3 \<Rightarrow> vec3" where
  "reflect3 i n = add3 i (scale3 n (- (2 * dot3 n i)))"

subsection \<open>Uniforms\<close>

text \<open>
  The uniforms are globals of the shader; every function of the model takes them as its
  first argument. The texture sampler \<^verbatim>\<open>texture2D(uBgTexture, uv, bias)\<close> is a function of
  the coordinate and the level-of-detail bias.
\<close>

record uniforms =
  uTime :: real
  uRainIntensity :: real
  uRainSpeed :: real
  uDropletSize :: real
  uBlurStrength :: real
  uBrightness :: real
  uContrast :: real
  uRefraction :: real
  uZoom :: real
  uLightning :: real
  uResolution :: vec2
  uBgTexture :: "vec2 \<Rightarrow> real \<Rightarrow> vec3"
  uHasTexture :: bool
  uAutoFit :: bool
  uImgAspect :: real

subsection \<open>Hashes\<close>

definition N13 :: "real \<Rightarrow> vec3" where
  "N13 p =
     (let p3x = fract (p * 0.1031); p3y = fract (p * 0.11369); p3z = fract (p * 0.13787);
          d = dot3 (p3x, p3y, p3z) (p3y + 19.19, p3z + 19.19, p3x + 19.19);
          qx = p3x + d; qy = p3y + d; qz = p3z + d
      in (fract ((qx + qy) * qz), fract ((qx + qz) * qy), fract ((qy + qz) * qx)))"

definition N :: "real \<Rightarrow> real" where
  "N t = fract (sin (t * 12345.564) * 7658.76)"

definition Saw :: "real \<Rightarrow> real \<Rightarrow> real" where
  "Saw b t = S 0 b t * S 1 b t"

subsection \<open>Droplet layers\<close>

text \<open>
  \<^verbatim>\<open>DropLayer2\<close> returns \<^verbatim>\<open>vec2(height, trailMask)\<close>. The source reassigns \<^verbatim>\<open>uv\<close>,
  \<^verbatim>\<open>id\<close>, \<^verbatim>\<open>x\<close>, \<^verbatim>\<open>y\<close> and \<^verbatim>\<open>trail\<close>; each assignment is a new binding here, numbered
  in the order of the source. \<^verbatim>\<open>droplets\<close> is computed and never used, as in the source.
\<close>

definition DropLayer2 :: "uniforms \<Rightarrow> vec2 \<Rightarrow> real \<Rightarrow> vec2" where
  "DropLayer2 u uv t =
     (let UVx = fst uv; UVy = snd uv;
          uvx = fst uv + sin (snd uv * 1.5) * 0.05;
          uvy = snd uv + t * 0.75;
          ax = 10; ay = 2.5;
          gridx = ax * 2; gridy = ay * 2;
          idx0 = floorf (uvx * gridx);
          colShift = N idx0;
          uvy1 = uvy + colShift;
          idx = floorf (uvx * gridx); idy = floorf (uvy1 * gridy);
          n = N13 (idx * 35.2 + idy * 2376.1);
          nx = fst n; nz = snd (snd n);
          stx = fract (uvx * gridx) - 0.5; sty = fract (uvy1 * gridy) - 0;
          randomSize = nz;
          sizeHierarchy = randomSize ^ 3;
          dropRadius = mix 0.2 0.65 sizeHierarchy * uDropletSize u;
          x0 = nx - 0.5;
          y0 = UVy * 20;
          wiggle = sin (y0 + sin y0 + t * 2) * 0.05;
          x = x0 + wiggle * (0.5 - \<bar>x0\<bar>) * (nz - 0.5);
          ti = fract (t + nz);
          slideSpeed = mix 0.85 0.95 sizeHierarchy;
          y = (Saw slideSpeed ti - 0.5) * 0.9 + 0.5;
          d = length2 ((stx - x) * ay, (sty - y) * ax);
          mainDrop0 = S dropRadius 0 d;
          heightMult = mix 0.3 1 sizeHierarchy;
          mainDrop = mainDrop0 * heightMult;
          r = sqrt (S 1 y sty);
          cd = \<bar>stx - x\<bar>;
          trail0 = S (0.23 * r) (0.15 * r * r) cd;
          trailFront = S (- 0.02) 0.02 (sty - y);
          trail = trail0 * (trailFront * r * r);
          y1 = UVy;
          trail2 = S (0.2 * r) 0 cd;
          droplets = max 0 (sin (y1 * (1 - y1) * 120) - sty) * trail2 * trailFront * nz;
          y2 = fract (y1 * 10) + (sty - 0.5);
          dd = length2 (stx - x, sty - y2);
          dropletsHeight = S (0.2 * uDropletSize u) 0 dd;
          combinedHeight = mainDrop + dropletsHeight * trail2 * trailFront * heightMult
      in (combinedHeight, trail))"

definition StaticDrops :: "uniforms \<Rightarrow> vec2 \<Rightarrow> real \<Rightarrow> real" where
  "StaticDrops u uv t =
     (let uvx0 = fst uv * 40; uvy0 = snd uv * 40;
          idx = floorf uvx0; idy = floorf uvy0;
          uvx = fract uvx0 - 0.5; uvy = fract uvy0 - 0.5;
          n = N13 (idx * 107.45 + idy * 3543.654);
          nx = fst n; ny = fst (snd n); nz = snd (snd n);
          px = (nx - 0.5) * 0.7; py = (ny - 0.5) * 0.7;
          d = length2 (uvx - px, uvy - py);
          fade = Saw 0.025 (fract (t + nz));
          h = S (0.2 * uDropletSize u) 0 d
      in h * fract (nz * 10) * fade)"

subsection \<open>Height-field compositor\<close>

definition GetHeightAndTrail :: "uniforms \<Rightarrow> vec2 \<Rightarrow> real \<Rightarrow> real \<Rightarrow> real \<Rightarrow> real \<Rightarrow> vec2" where
  "GetHeightAndTrail u uv t l0 l1 l2 =
     (let s = StaticDrops u uv t * l0;
          m1 = DropLayer2 u uv t;
          m2 = DropLayer2 u (fst uv * 1.85, snd uv * 1.85) t;
          h0 = s + fst m1 * l1 + fst m2 * l2;
          h = smoothstep 0 1 h0;
          trail = max (snd m1 * l1) (snd m2 * l2)
      in (h, trail))"

subsection \<open>The fragment program\<close>

text \<open>
  \<^verbatim>\<open>main\<close> is one long function in the source. Its stages are separate definitions here,
  one for each commented block of the source, and \<^verbatim>\<open>main\<close> composes them in the source's
  order. \<^verbatim>\<open>vUv\<close> is the varying of the fragment; the result is \<^verbatim>\<open>gl_FragColor.rgb\<close>.
\<close>

text \<open>The layer gains (\<^verbatim>\<open>staticDrops\<close>, \<^verbatim>\<open>layer1\<close>, \<^verbatim>\<open>layer2\<close>).\<close>

definition staticDrops :: "uniforms \<Rightarrow> real" where
  "staticDrops u = S 0 1 (uRainIntensity u) * 0.3"

definition layer1 :: "uniforms \<Rightarrow> real" where
  "layer1 u = S 0 0.8 (uRainIntensity u)"

definition layer2 :: "uniforms \<Rightarrow> real" where
  "layer2 u = S 0.5 1 (uRainIntensity u) * 0.3"

text \<open>\<^verbatim>\<open>uv = (vUv - 0.5) / uZoom + 0.5\<close> and \<^verbatim>\<open>physUV = uv * aspect\<close>.\<close>

definition zoomUV :: "uniforms \<Rightarrow> vec2 \<Rightarrow> vec2" where
  "zoomUV u vUv = ((fst vUv - 0.5) / uZoom u + 0.5, (snd vUv - 0.5) / uZoom u + 0.5)"

definition physUV :: "uniforms \<Rightarrow> vec2 \<Rightarrow> vec2" where
  "physUV u vUv =
     (let uv = zoomUV u vUv;
          aspectx = fst (uResolution u) / snd (uResolution u); aspecty = 1
      in (fst uv * aspectx, snd uv * aspecty))"

text \<open>The height map at the fragment and the finite-difference normal.\<close>

definition heightAndTrail :: "uniforms \<Rightarrow> vec2 \<Rightarrow> vec2" where
  "heightAndTrail u vUv =
     GetHeightAndTrail u (physUV u vUv) (uTime u * uRainSpeed u) (staticDrops u) (layer1 u) (layer2 u)"

definition normal :: "uniforms \<Rightarrow> vec2 \<Rightarrow> vec2" where
  "normal u vUv =
     (let T = uTime u * uRainSpeed u;
          p = physUV u vUv;
          texelx = 1 / snd (uResolution u); texely = 0;
          h = fst (GetHeightAndTrail u p T (staticDrops u) (layer1 u) (layer2 u));
          h_right = fst (GetHeightAndTrail u (fst p + texelx, snd p + texely) T
                           (staticDrops u) (layer1 u) (layer2 u));
          h_up = fst (GetHeightAndTrail u (fst p + texely, snd p + texelx) T
                           (staticDrops u) (layer1 u) (layer2 u))
      in ((h - h_right) * 15 * uRefraction u, (h - h_up) * 15 * uRefraction u))"

definition refractionUV :: "uniforms \<Rightarrow> vec2 \<Rightarrow> vec2" where
  "refractionUV u vUv =
     (let uv = zoomUV u vUv; n = normal u vUv in (fst uv - fst n, snd uv - snd n))"

definition focus :: "uniforms \<Rightarrow> vec2 \<Rightarrow> real" where
  "focus u vUv =
     (let c = heightAndTrail u vUv in mix (uBlurStrength u * 6) 0 (S 0 0.4 (fst c + snd c)))"

text \<open>The auto-fit cover transform of the image path, applied to \<^verbatim>\<open>texUv\<close>.\<close>

definition coverFit :: "uniforms \<Rightarrow> vec2 \<Rightarrow> vec2" where
  "coverFit u texUv =
     (let screenAspect = fst (uResolution u) / snd (uResolution u)
      in if screenAspect > uImgAspect u
         then (let r = screenAspect / uImgAspect u
               in (fst texUv, (snd texUv - 0.5) / r + 0.5))
         else (let r = uImgAspect u / screenAspect
               in ((fst texUv - 0.5) / r + 0.5, snd texUv)))"

text \<open>The procedural background, sampled at \<^verbatim>\<open>bgUV\<close>.\<close>

definition proceduralBackground :: "uniforms \<Rightarrow> vec2 \<Rightarrow> vec2 \<Rightarrow> vec3" where
  "proceduralBackground u vUv bgUV =
     (let t = uTime u * 1;
          bx = fst bgUV; by = snd bgUV;
          colTop = (0.55, 0.75, 0.95);
          colMid = (0.98, 0.72, 0.55);
          colBot = (0.2, 0.25, 0.5);
          wavex = bx + sin (by * 2 + t * 0.8) * 0.1;
          wavey = by + cos (bx * 1.5 + t * 0.6) * 0.1;
          y = wavey;
          bg0 = mix3 colBot colMid (smoothstep (- 0.2) 0.5 y);
          bg1 = mix3 bg0 colTop (smoothstep 0.4 1.1 y);
          posAx = 0.5 + sin (t * 0.3) * 0.7; posAy = 0.4 + cos (t * 0.2) * 0.4;
          distA = length2 ((bx - posAx) * 1, (by - posAy) * 1.5);
          glowA = smoothstep 0.6 0 distA;
          bg2 = add3 bg1 (scale3 (scale3 (1, 0.8, 0.4) glowA) 0.18);
          posBx = 0.5 + cos (t * 0.4 + 2) * 0.6; posBy = 0.3 + sin (t * 0.3) * 0.3;
          distB = length2 ((bx - posBx) * 1, (by - posBy) * 1.5);
          glowB = smoothstep 0.5 0 distB;
          bg3 = add3 bg2 (scale3 (scale3 (1, 0.4, 0.5) glowB) 0.15);
          posCx = 0.5 + sin (t * 0.6) * 0.3; posCy = 0.8 + cos (t * 0.2) * 0.1;
          distC = length2 (bx - posCx, by - posCy);
          glowC0 = smoothstep 0.45 0 distC;
          glowC = glowC0 * (0.8 + 0.2 * sin (uTime u * 1.5));
          bg4 = add3 bg3 (scale3 (scale3 (0.85, 0.95, 1) glowC) 0.12);
          rays0 = sin (bx * 3 - uTime u * 2 + by * 2);
          rays1 = rays0 + sin (bx * 2 + uTime u * 1);
          rays = smoothstep 0 1 rays1;
          bg5 = add3 bg4 (scale3 (scale3 (1, 1, 0.9) rays) 0.06);
          noise = N (fst vUv * 12.9898 + snd vUv * 78.233 + uTime u);
          bg6 = adds3 bg5 ((noise - 0.5) * 0.04)
      in bg6)"

text \<open>
  The background colour seen through the coordinate \<^verbatim>\<open>refractionUV\<close> with blur \<^verbatim>\<open>focus\<close>:
  the image path when a texture is bound, the procedural path otherwise.
\<close>

definition background :: "uniforms \<Rightarrow> vec2 \<Rightarrow> vec2 \<Rightarrow> real \<Rightarrow> vec3" where
  "background u vUv rUV fo =
     (if uHasTexture u
      then (let texUv = (if uAutoFit u then coverFit u rUV else rUV)
            in uBgTexture u texUv fo)
      else proceduralBackground u vUv rUV)"

definition lightningFlash :: "uniforms \<Rightarrow> vec3 \<Rightarrow> vec3" where
  "lightningFlash u col =
     (if uLightning u > 0
      then (let flashCol = (0.8, 0.9, 1) in mix3 col flashCol (uLightning u * 0.6))
      else col)"

text \<open>Specular highlight, fresnel rim and edge darkening, masked to the drops.\<close>

definition lighting :: "vec2 \<Rightarrow> real \<Rightarrow> vec3 \<Rightarrow> vec3" where
  "lighting nrm h col =
     (let lightDir = normalize3 (- 0.5, 1, 0.5);
          viewDir = (0, 0, 1);
          N = normalize3 (fst nrm * 2, snd nrm * 2, 1);
          spec = (max 0 (dot3 (reflect3 (scale3 lightDir (- 1)) N) viewDir)) ^ 32 * 0.8;
          fresnel = (1 - max 0 (dot3 N viewDir)) ^ 3 * 0.3;
          dropMask = smoothstep 0.01 0.1 h;
          col1 = adds3 col ((spec + fresnel) * dropMask)
      in scale3 col1 (mix 1 0.9 (dropMask * length2 nrm)))"

definition vignette :: "vec2 \<Rightarrow> vec3 \<Rightarrow> vec3" where
  "vignette vUv col =
     (let vig = 1 - length2 (fst vUv - 0.5, snd vUv - 0.5) * 0.2 in scale3 col vig)"

text \<open>Grading of one channel, and of the colour: brightness, then contrast around 0.5.\<close>

definition gradeChannel :: "uniforms \<Rightarrow> real \<Rightarrow> real" where
  "gradeChannel u c = (c * uBrightness u - 0.5) * uContrast u + 0.5"

definition grading :: "uniforms \<Rightarrow> vec3 \<Rightarrow> vec3" where
  "grading u col =
     (case col of (cr, cg, cb) \<Rightarrow> (gradeChannel u cr, gradeChannel u cg, gradeChannel u cb))"

definition main :: "uniforms \<Rightarrow> vec2 \<Rightarrow> vec3" where
  "main u vUv =
     (let nrm = normal u vUv;
          h = fst (heightAndTrail u vUv);
          col0 = background u vUv (refractionUV u vUv) (focus u vUv);
          col1 = lightningFlash u col0;
          col2 = lighting nrm h col1;
          col3 = vignette vUv col2
      in grading u col3)"

text \<open>The value of \<^verbatim>\<open>h\<close> in \<^verbatim>\<open>GetHeightAndTrail\<close> before its final \<^verbatim>\<open>smoothstep\<close>.\<close>

definition rawHeight :: "uniforms \<Rightarrow> vec2 \<Rightarrow> real \<Rightarrow> real \<Rightarrow> real \<Rightarrow> real \<Rightarrow> real" where
  "rawHeight u uv t l0 l1 l2 =
     StaticDrops u uv t * l0 + fst (DropLayer2 u uv t) * l1
       + fst (DropLayer2 u (fst uv * 1.85, snd uv * 1.85) t) * l2"

text \<open>
  The ranges the settings are documented to have (src/types.ts), with a canvas and an image
  of positive size.
\<close>

definition documented_ranges :: "uniforms \<Rightarrow> bool" where
  "documented_ranges u \<longleftrightarrow>
     0 \<le> uRainIntensity u \<and> uRainIntensity u \<le> 1 \<and>
     0.1 \<le> uRainSpeed u \<and> uRainSpeed u \<le> 3 \<and>
     0.5 \<le> uDropletSize u \<and> uDropletSize u \<le> 2 \<and>
     0 \<le> uBlurStrength u \<and> uBlurStrength u \<le> 1 \<and>
     0 \<le> uBrightness u \<and> uBrightness u \<le> 2 \<and>
     0 \<le> uContrast u \<and> uContrast u \<le> 2 \<and>
     0 \<le> uRefraction u \<and> uRefraction u \<le> 1.5 \<and>
     0.5 \<le> uZoom u \<and> uZoom u \<le> 2 \<and>
     0 \<le> uLightning u \<and> uLightning u \<le> 1 \<and>
     0 < fst (uResolution u) \<and> 0 < snd (uResolution u) \<and> 0 < uImgAspect u"

text \<open>
  An example input: the default settings of the application on a canvas of 1920 by 1080
  pixels, at time 0, with no image bound.
\<close>

definition exampleUniforms :: uniforms where
  "exampleUniforms =
     \<lparr>uTime = 0, uRainIntensity = 0.26, uRainSpeed = 0.3, uDropletSize = 1.5,
      uBlurStrength = 0.07, uBrightness = 1.1, uContrast = 1, uRefraction = 1, uZoom = 1,
      uLightning = 0, uResolution = (1920, 1080), uBgTexture = (\<lambda>p b. (0, 0, 0)),
      uHasTexture = False, uAutoFit = True, uImgAspect = 1\<rparr>"

text \<open>A texture of one colour.\<close>

definition plainTexture :: "vec3 \<Rightarrow> vec2 \<Rightarrow> real \<Rightarrow> vec3" where
  "plainTexture c p b = c"

section \<open>The JavaScript runtime: timers and random numbers\<close>

text \<open>
  The audio service (src/services/audioService.ts) and the application component share the
  browser's timer queue and \<^verbatim>\<open>Math.random()\<close>. A JavaScript number is modelled as a
  \<^typ>\<open>real\<close>. The callbacks passed to \<^verbatim>\<open>setTimeout\<close> are closures; each is a constructor
  holding the values the closure captured.
\<close>

datatype callback =
    LightningLoop real bool
  | FlashOff
  | DoFlash real
  | ThunderPlay nat real real

text \<open>
  A pending timer: its handle, the delay it was created with, the time it is due, and its
  callback.
\<close>

record timer =
  tid :: nat
  delay :: real
  due :: real
  cb :: callback

text \<open>An \<^verbatim>\<open>HTMLAudioElement\<close>, with the attributes the service reads or writes.\<close>

record audio =
  src :: string
  loop :: bool
  paused :: bool
  volume :: real
  playbackRate :: real
  currentTime :: real

text \<open>
  The calls the lightning scheduler makes to the outside: \<^verbatim>\<open>setLightningVal(v)\<close> (the flash
  intensity handed to the shader) and \<^verbatim>\<open>triggerThunder(distance)\<close>.
\<close>

datatype outcall = SetLightningVal real | TriggerThunder real

text \<open>
  The state of the page: the clock and the timer queue, the stream of values that
  \<^verbatim>\<open>Math.random()\<close> will return and how many were consumed, the module variables of the
  audio service, and the state and refs of the \<^verbatim>\<open>App\<close> component that the lightning code
  uses. \<^verbatim>\<open>calls\<close> lists the outside calls made so far, oldest first.
\<close>

record world =
  now :: real
  timers :: "timer list"
  nextTimerId :: nat
  rng :: "nat \<Rightarrow> real"
  rngPos :: nat
  rainAudio :: "audio option"
  forestAudio :: "audio option"
  windAudio :: "audio option"
  musicAudio :: "audio option"
  thunder1Audio :: "audio option"
  thunder2Audio :: "audio option"
  thunderPool :: "audio list"
  isInitialized :: bool
  globalVolumeScalar :: real
  mounted :: bool
  stormIntensity :: real
  isAudioPlaying :: bool
  audioVolume :: real
  lightningVal :: real
  lightningLoopRef :: "nat option"
  calls :: "outcall list"

text \<open>\<^verbatim>\<open>Math.random()\<close>: the next value of the stream.\<close>

definition Math_random :: "world \<Rightarrow> real \<times> world" where
  "Math_random w = (rng w (rngPos w), w\<lparr>rngPos := rngPos w + 1\<rparr>)"

text \<open>\<^verbatim>\<open>Math.random()\<close> returns a number in \<open>[0, 1)\<close>.\<close>

definition valid_rng :: "(nat \<Rightarrow> real) \<Rightarrow> bool" where
  "valid_rng g \<longleftrightarrow> (\<forall>i. 0 \<le> g i \<and> g i < 1)"

definition constRng :: "real \<Rightarrow> nat \<Rightarrow> real" where
  "constRng r i = r"

text \<open>
  \<^verbatim>\<open>setTimeout(callback, delay)\<close> returns a fresh handle; a negative delay counts as 0.
  \<^verbatim>\<open>clearTimeout(handle)\<close> removes the timer with that handle, if it is still pending.
\<close>

definition setTimeout :: "callback \<Rightarrow> real \<Rightarrow> world \<Rightarrow> nat \<times> world" where
  "setTimeout c d w =
     (nextTimerId w,
      w\<lparr>timers := timers w @ [\<lparr>tid = nextTimerId w, delay = d, due = now w + max 0 d, cb = c\<rparr>],
        nextTimerId := nextTimerId w + 1\<rparr>)"

definition clearTimeout :: "nat \<Rightarrow> world \<Rightarrow> world" where
  "clearTimeout h w = w\<lparr>timers := filter (\<lambda>t. tid t \<noteq> h) (timers w)\<rparr>"

section \<open>The audio service (src/services/audioService.ts)\<close>

definition THUNDER_POOL_SIZE :: nat where
  "THUNDER_POOL_SIZE = 4"

definition RAIN_URL :: string where "RAIN_URL = ''/sounds/rain.mp3''"
definition FOREST_RAIN_URL :: string where "FOREST_RAIN_URL = ''/sounds/forestrain.mp3''"
definition THUNDER_URL_1 :: string where "THUNDER_URL_1 = ''/sounds/thunder.mp3''"
definition THUNDER_URL_2 :: string where "THUNDER_URL_2 = ''/sounds/thunder2.mp3''"
definition WIND_URL :: string where "WIND_URL = ''/sounds/wind.mp3''"
definition MUSIC_URL :: string where "MUSIC_URL = ''/sounds/campfire.mp3''"

text \<open>\<^verbatim>\<open>new Audio(url)\<close>: a paused element at full volume and normal rate.\<close>

definition newAudio :: "string \<Rightarrow> audio" where
  "newAudio url =
     \<lparr>src = url, loop = False, paused = True, volume = 1, playbackRate = 1, currentTime = 0\<rparr>"

text \<open>The loop of \<^verbatim>\<open>initAudio\<close> that fills the pool, for \<^verbatim>\<open>i\<close> from 0 below \<^verbatim>\<open>n\<close>.\<close>

definition makeThunderPool :: "nat \<Rightarrow> audio list" where
  "makeThunderPool n =
     map (\<lambda>i. (newAudio (if i mod 2 = 0 then THUNDER_URL_1 else THUNDER_URL_2))\<lparr>loop := False\<rparr>)
       [0..<n]"

text \<open>
  \<^verbatim>\<open>initAudio\<close>. The ambient loops start muted and \<^verbatim>\<open>startPlayback\<close> plays them; the model
  takes the playback to start (a browser may block it until the user interacts).
\<close>

definition initAudio :: "world \<Rightarrow> world" where
  "initAudio w =
     (if isInitialized w then w
      else w\<lparr>rainAudio := Some ((newAudio RAIN_URL)\<lparr>loop := True, volume := 0, paused := False\<rparr>),
             forestAudio := Some ((newAudio FOREST_RAIN_URL)\<lparr>loop := True, volume := 0, paused := False\<rparr>),
             windAudio := Some ((newAudio WIND_URL)\<lparr>loop := True, volume := 0, paused := False\<rparr>),
             musicAudio := Some ((newAudio MUSIC_URL)\<lparr>loop := True, volume := 0, paused := False\<rparr>),
             thunder1Audio := Some ((newAudio THUNDER_URL_1)\<lparr>loop := True\<rparr>),
             thunder2Audio := Some ((newAudio THUNDER_URL_2)\<lparr>loop := True\<rparr>),
             thunderPool := thunderPool w @ makeThunderPool THUNDER_POOL_SIZE,
             isInitialized := True\<rparr>)"

text \<open>
  \<^verbatim>\<open>setGlobalVolume\<close> clamps the volume into \<open>[0, 1]\<close> and, once the ambient loops exist,
  sets their volumes. The loops are created together, so the unguarded write to
  \<^verbatim>\<open>forestAudio\<close> finds an element whenever \<^verbatim>\<open>rainAudio\<close> is one.
\<close>

definition setVolume :: "real \<Rightarrow> audio option \<Rightarrow> audio option" where
  "setVolume v a = map_option (\<lambda>x. x\<lparr>volume := v\<rparr>) a"

definition setGlobalVolume :: "real \<Rightarrow> world \<Rightarrow> world" where
  "setGlobalVolume vol w =
     (let g = max 0 (min 1 vol);
          w1 = w\<lparr>globalVolumeScalar := g\<rparr>
      in if rainAudio w1 = None \<or> musicAudio w1 = None then w1
         else w1\<lparr>rainAudio := setVolume (g * 0.7) (rainAudio w1),
                 forestAudio := setVolume (g * 0.6) (forestAudio w1),
                 windAudio := setVolume (g * 0.4) (windAudio w1),
                 musicAudio := setVolume (g * 0.15) (musicAudio w1)\<rparr>)"

text \<open>
  \<^verbatim>\<open>thunderPool.find(a => a.paused) || thunderPool[0]\<close>. The element is an object of the
  pool; the model names it by its index. \<^verbatim>\<open>firstPaused\<close> is the index of the first paused
  element, if there is one.
\<close>

fun firstPaused :: "audio list \<Rightarrow> nat option" where
  "firstPaused [] = None"
| "firstPaused (a # as) =
     (if paused a then Some 0 else map_option Suc (firstPaused as))"

definition freeNode :: "audio list \<Rightarrow> nat" where
  "freeNode pool = (case firstPaused pool of Some i \<Rightarrow> i | None \<Rightarrow> 0)"

definition triggerThunder :: "real \<Rightarrow> world \<Rightarrow> world" where
  "triggerThunder distance w =
     (if \<not> isInitialized w \<or> globalVolumeScalar w \<le> 0.05 then w
      else
        let node = freeNode (thunderPool w);
            (r1, w1) = Math_random w;
            delayMs = distance * 4000 + r1 * 500;
            eventVolume = max 0.1 ((1.0 - distance) * 0.8) * globalVolumeScalar w;
            (r2, w2) = Math_random w1;
            rate = 1.1 - distance * 0.5 + r2 * 0.1
        in snd (setTimeout (ThunderPlay node eventVolume rate) delayMs w2))"

text \<open>
  The callback scheduled by \<^verbatim>\<open>triggerThunder\<close>. Setting \<^verbatim>\<open>volume\<close> outside \<open>[0, 1]\<close> throws,
  and so does writing to a node that does not exist; the callback then ends without playing.
\<close>

definition playThunder :: "nat \<Rightarrow> real \<Rightarrow> real \<Rightarrow> world \<Rightarrow> world" where
  "playThunder node eventVolume rate w =
     (if node < length (thunderPool w) \<and> 0 \<le> eventVolume \<and> eventVolume \<le> 1
      then w\<lparr>thunderPool := (thunderPool w)[node :=
                (thunderPool w ! node)\<lparr>volume := eventVolume, playbackRate := rate,
                                        currentTime := 0, paused := False\<rparr>]\<rparr>
      else w)"

section \<open>The lightning scheduler of the application component\<close>

text \<open>
  The \<^verbatim>\<open>App\<close> component follows the audio service in src/services/audioService.ts.
  The lightning code is the effect of \<^verbatim>\<open>App\<close> with the dependencies
  \<^verbatim>\<open>[settings.stormIntensity, settings.isAudioPlaying]\<close>. Its inner functions close over the
  settings of the render in which the effect ran; the model passes these two captured values
  as the arguments \<^verbatim>\<open>storm\<close> and \<^verbatim>\<open>audioOn\<close>.
\<close>

definition setLightningVal :: "real \<Rightarrow> world \<Rightarrow> world" where
  "setLightningVal v w = w\<lparr>lightningVal := v, calls := calls w @ [SetLightningVal v]\<rparr>"

text \<open>The distance of a strike, from the captured intensity and the random draw.\<close>

definition strikeDistance :: "real \<Rightarrow> real \<Rightarrow> real" where
  "strikeDistance bias raw = max 0 (min 1 (raw - bias * 0.3))"

definition doFlash :: "real \<Rightarrow> world \<Rightarrow> world" where
  "doFlash brightness w =
     (let w1 = setLightningVal brightness w;
          (r, w2) = Math_random w1
      in snd (setTimeout FlashOff (100 + r * 200) w2))"

definition triggerLightningEvent :: "real \<Rightarrow> bool \<Rightarrow> world \<Rightarrow> world" where
  "triggerLightningEvent storm audioOn w =
     (let (r0, w0) = Math_random w
      in if r0 > 0.8 then w0
         else
           let bias = storm;
               (raw, w1) = Math_random w0;
               distance = strikeDistance bias raw;
               brightness = (1.0 - distance) * 0.8 + 0.2;
               (r2, w2) = Math_random w1;
               isDouble = (r2 > 0.7);
               w3 = doFlash brightness w2;
               w4 = (if isDouble
                     then (let (r3, w3a) = Math_random w3
                           in snd (setTimeout (DoFlash brightness) (150 + r3 * 150) w3a))
                     else w3);
               w5 = (if audioOn
                     then triggerThunder distance (w4\<lparr>calls := calls w4 @ [TriggerThunder distance]\<rparr>)
                     else w4)
           in w5)"

definition scheduleLightning :: "real \<Rightarrow> bool \<Rightarrow> world \<Rightarrow> world" where
  "scheduleLightning storm audioOn w =
     (if storm \<le> 0.01 then w
      else
        let minDelay = 5000;
            variableDelay = (1.0 - storm) * 40000;
            (r, w1) = Math_random w;
            nextDelay = minDelay + r * variableDelay;
            (h, w2) = setTimeout (LightningLoop storm audioOn) nextDelay w1
        in w2\<lparr>lightningLoopRef := Some h\<rparr>)"

text \<open>What each timer callback does when it fires.\<close>

fun runCallback :: "callback \<Rightarrow> world \<Rightarrow> world" where
  "runCallback (LightningLoop storm audioOn) w =
     scheduleLightning storm audioOn (triggerLightningEvent storm audioOn w)"
| "runCallback FlashOff w = setLightningVal 0 w"
| "runCallback (DoFlash brightness) w = doFlash brightness w"
| "runCallback (ThunderPlay node eventVolume rate) w = playThunder node eventVolume rate w"

text \<open>
  The clean-up function of the lightning effect and its body. Timer handles of a browser are
  positive, so \<^verbatim>\<open>if (lightningLoopRef.current)\<close> holds exactly when a handle was stored.
\<close>

definition lightningCleanup :: "world \<Rightarrow> world" where
  "lightningCleanup w =
     (case lightningLoopRef w of Some h \<Rightarrow> clearTimeout h w | None \<Rightarrow> w)"

definition lightningEffect :: "world \<Rightarrow> world" where
  "lightningEffect w =
     (let w1 = (case lightningLoopRef w of Some h \<Rightarrow> clearTimeout h w | None \<Rightarrow> w)
      in if stormIntensity w1 > 0
         then scheduleLightning (stormIntensity w1) (isAudioPlaying w1) w1
         else w1)"

text \<open>The audio effect of \<^verbatim>\<open>App\<close>, with the dependencies \<^verbatim>\<open>[isAudioPlaying, audioVolume]\<close>.\<close>

definition audioEffect :: "world \<Rightarrow> world" where
  "audioEffect w =
     (if isAudioPlaying w then setGlobalVolume (audioVolume w) (initAudio w)
      else setGlobalVolume 0 w)"

text \<open>
  The page before \<^verbatim>\<open>App\<close> is mounted: the initial values of the module variables and of the
  component's state, no timer, the clock at 0. The first timer handle is 1.
\<close>

definition initialWorld :: "(nat \<Rightarrow> real) \<Rightarrow> world" where
  "initialWorld g =
     \<lparr>now = 0, timers = [], nextTimerId = 1, rng = g, rngPos = 0,
      rainAudio = None, forestAudio = None, windAudio = None, musicAudio = None,
      thunder1Audio = None, thunder2Audio = None, thunderPool = [],
      isInitialized = False, globalVolumeScalar = 1.0,
      mounted = False, stormIntensity = 0.0, isAudioPlaying = True, audioVolume = 1.0,
      lightningVal = 0, lightningLoopRef = None, calls = []\<rparr>"

text \<open>
  What can happen to the page. A change of a setting re-runs the effects that depend on it
  (React compares the dependencies, so setting the value it already has runs nothing): first
  the clean-up of the lightning effect, then the effects in the order of the source. The
  timer that fires is the pending one that is due first (of two due together, the older one).
  Time passes only up to the next due timer. A thunder sound that plays can end.
\<close>

datatype event =
    Mount
  | SetStormIntensity real
  | SetAudioPlaying bool
  | SetAudioVolume real
  | TimerFires
  | TimePasses real
  | ThunderEnds nat

fun earliest :: "timer list \<Rightarrow> timer option" where
  "earliest [] = None"
| "earliest (t # ts) =
     (case earliest ts of
        None \<Rightarrow> Some t
      | Some t' \<Rightarrow> if due t' < due t then Some t' else Some t)"

fun step :: "event \<Rightarrow> world \<Rightarrow> world option" where
  "step Mount w =
     (if mounted w then None
      else Some (lightningEffect (audioEffect (w\<lparr>mounted := True\<rparr>))))"
| "step (SetStormIntensity v) w =
     (if \<not> mounted w then None
      else if v = stormIntensity w then Some w
      else Some (lightningEffect (lightningCleanup (w\<lparr>stormIntensity := v\<rparr>))))"
| "step (SetAudioPlaying b) w =
     (if \<not> mounted w then None
      else if b = isAudioPlaying w then Some w
      else Some (lightningEffect (audioEffect (lightningCleanup (w\<lparr>isAudioPlaying := b\<rparr>)))))"
| "step (SetAudioVolume v) w =
     (if \<not> mounted w then None
      else if v = audioVolume w then Some w
      else Some (audioEffect (w\<lparr>audioVolume := v\<rparr>)))"
| "step TimerFires w =
     (case earliest (timers w) of
        None \<Rightarrow> None
      | Some t \<Rightarrow>
          Some (runCallback (cb t)
                  (w\<lparr>now := max (now w) (due t),
                     timers := filter (\<lambda>x. tid x \<noteq> tid t) (timers w)\<rparr>)))"
| "step (TimePasses dt) w =
     (if dt < 0 \<or> \<not> list_all (\<lambda>t. now w + dt \<le> due t) (timers w) then None
      else Some (w\<lparr>now := now w + dt\<rparr>))"
| "step (ThunderEnds i) w =
     (if i < length (thunderPool w) \<and> \<not> paused (thunderPool w ! i)
      then Some (w\<lparr>thunderPool := (thunderPool w)[i := (thunderPool w ! i)\<lparr>paused := True\<rparr>]\<rparr>)
      else None)"

fun run :: "event list \<Rightarrow> world \<Rightarrow> world option" where
  "run [] w = Some w"
| "run (e # es) w = (case step e w of None \<Rightarrow> None | Some w' \<Rightarrow> run es w')"

text \<open>The page once \<^verbatim>\<open>App\<close> has mounted, with nothing else done.\<close>

definition mountedWorld :: "(nat \<Rightarrow> real) \<Rightarrow> world" where
  "mountedWorld g = lightningEffect (audioEffect ((initialWorld g)\<lparr>mounted := True\<rparr>))"

text \<open>Observations on a state, used to state the properties.\<close>

fun isLoop :: "callback \<Rightarrow> bool" where
  "isLoop (LightningLoop storm audioOn) = True"
| "isLoop c = False"

fun isThunderCall :: "outcall \<Rightarrow> bool" where
  "isThunderCall (TriggerThunder d) = True"
| "isThunderCall c = False"

definition loopTimers :: "world \<Rightarrow> timer list" where
  "loopTimers w = filter (\<lambda>t. isLoop (cb t)) (timers w)"

definition thunderCalls :: "world \<Rightarrow> outcall list" where
  "thunderCalls w = filter isThunderCall (calls w)"

text \<open>
  Invariants of the page. Of the audio service: the pool has its four elements from the
  moment the service is initialised and is empty before, and the global volume scalar lies
  in \<open>[0, 1]\<close>. Of the scheduler: every pending loop timer is the one whose handle is stored in
  \<^verbatim>\<open>lightningLoopRef\<close>, and its callback captured the current settings, with an intensity
  above 0.01.
\<close>

definition audioInv :: "world \<Rightarrow> bool" where
  "audioInv w \<longleftrightarrow>
     (if isInitialized w then length (thunderPool w) = THUNDER_POOL_SIZE else thunderPool w = [])
     \<and> 0 \<le> globalVolumeScalar w \<and> globalVolumeScalar w \<le> 1"

definition refInv :: "world \<Rightarrow> bool" where
  "refInv w \<longleftrightarrow> list_all (\<lambda>t. lightningLoopRef w = Some (tid t)) (loopTimers w)"

definition loopInv :: "world \<Rightarrow> bool" where
  "loopInv w \<longleftrightarrow>
     list_all (\<lambda>t. lightningLoopRef w = Some (tid t)
                  \<and> cb t = LightningLoop (stormIntensity w) (isAudioPlaying w)
                  \<and> stormIntensity w > 0.01) (loopTimers w)"

text \<open>
  A further invariant of the timer queue: every pending handle and the stored handle are below
  the next handle to be given out, and a pending timer that has the stored handle is a loop
  timer.
\<close>

definition idInv :: "world \<Rightarrow> bool" where
  "idInv w \<longleftrightarrow>
     list_all (\<lambda>t. tid t < nextTimerId w
                  \<and> (lightningLoopRef w = Some (tid t) \<longrightarrow> isLoop (cb t))) (timers w)
     \<and> (case lightningLoopRef w of Some h \<Rightarrow> h < nextTimerId w | None \<Rightarrow> True)"

text \<open>
  The number of pending timers whose callback satisfies \<^verbatim>\<open>Q\<close>, which elements of the
  thunder pool are paused, and how many of them are playing.
\<close>

fun isDoFlash :: "callback \<Rightarrow> bool" where
  "isDoFlash (DoFlash brightness) = True"
| "isDoFlash c = False"

fun isThunderPlay :: "callback \<Rightarrow> bool" where
  "isThunderPlay (ThunderPlay node eventVolume rate) = True"
| "isThunderPlay c = False"

definition pendingCount :: "(callback \<Rightarrow> bool) \<Rightarrow> world \<Rightarrow> nat" where
  "pendingCount Q w = length (filter (\<lambda>t. Q (cb t)) (timers w))"

definition poolPaused :: "world \<Rightarrow> bool list" where
  "poolPaused w = map paused (thunderPool w)"

definition playingCount :: "world \<Rightarrow> nat" where
  "playingCount w = length (filter (\<lambda>a. \<not> paused a) (thunderPool w))"

text \<open>The delays of the pending loop timers.\<close>

definition pendingLoopDelays :: "world \<Rightarrow> real list" where
  "pendingLoopDelays w = map delay (loopTimers w)"

text \<open>
  An event that does not raise the storm intensity above 0, and what holds of a state \<^verbatim>\<open>w'\<close>
  that follows an idle state \<^verbatim>\<open>w\<close> through such events. The intensity is still not above 0
  and no loop timer is pending. No thunder playback was scheduled: of each playback callback
  there are no more pending than in \<^verbatim>\<open>w\<close>; and a thunder sound starts only when a pending
  playback fires: the sounds playing and the playbacks pending are together no more than in
  \<^verbatim>\<open>w\<close>. Of the calls made since \<^verbatim>\<open>w\<close>, none is a call of
  \<^verbatim>\<open>triggerThunder\<close>; for each brightness other than 0, the flashes of that brightness made
  since \<^verbatim>\<open>w\<close> and the second flashes of that brightness still pending are together no more
  than the second flashes of that brightness that were pending in \<^verbatim>\<open>w\<close>; and the number of
  calls made since \<^verbatim>\<open>w\<close> is bounded by what was pending in \<^verbatim>\<open>w\<close> (one call for each pending
  flash-off, two for each pending second flash).
\<close>

fun keepsIdle :: "event \<Rightarrow> bool" where
  "keepsIdle (SetStormIntensity v) = (v \<le> 0)"
| "keepsIdle e = True"

definition idleSince :: "world \<Rightarrow> world \<Rightarrow> bool" where
  "idleSince w w' \<longleftrightarrow>
     stormIntensity w' \<le> 0 \<and> loopTimers w' = []
     \<and> (\<forall>c. isThunderPlay c \<longrightarrow> pendingCount ((=) c) w' \<le> pendingCount ((=) c) w)
     \<and> playingCount w' + pendingCount isThunderPlay w'
           \<le> playingCount w + pendingCount isThunderPlay w
     \<and> (\<exists>new. calls w' = calls w @ new
           \<and> list_all (\<lambda>c. \<not> isThunderCall c) new
           \<and> (\<forall>b. b \<noteq> 0 \<longrightarrow>
                 count_list new (SetLightningVal b) + pendingCount ((=) (DoFlash b)) w'
                   \<le> pendingCount ((=) (DoFlash b)) w)
           \<and> length new + pendingCount ((=) FlashOff) w' + 2 * pendingCount isDoFlash w'
                 \<le> pendingCount ((=) FlashOff) w + 2 * pendingCount isDoFlash w)"

text \<open>The mean of a sample.\<close>

definition mean :: "real list \<Rightarrow> real" where
  "mean xs = sum_list xs / real (length xs)"

section \<open>Loading the background texture (src/components/RainShader.tsx)\<close>

text \<open>
  The component keeps the texture it renders with and the aspect ratio of its image in its
  state. Its effect, with the dependency \<^verbatim>\<open>[settings.backgroundUrl]\<close>, starts a load for a
  non-empty URL and clears the texture otherwise; it returns no clean-up function. The loads
  that were started and have not completed are listed by the URL they load.
\<close>

record texture =
  texSrc :: string
  texImage :: "(real \<times> real) option"

record shader =
  backgroundUrl :: "string option"
  currentTexture :: "texture option"
  imgAspect :: real
  inFlight :: "string list"

definition initialShader :: shader where
  "initialShader =
     \<lparr>backgroundUrl = None, currentTexture = None, imgAspect = 1.0, inFlight = []\<rparr>"

text \<open>The effect, run after \<^verbatim>\<open>settings.backgroundUrl\<close> changed.\<close>

definition textureEffect :: "shader \<Rightarrow> shader" where
  "textureEffect s =
     (case backgroundUrl s of
        Some url \<Rightarrow>
          if url \<noteq> [] then s\<lparr>inFlight := inFlight s @ [url]\<rparr>
          else s\<lparr>currentTexture := None\<rparr>
      | None \<Rightarrow> s\<lparr>currentTexture := None\<rparr>)"

text \<open>The callback of \<^verbatim>\<open>TextureLoader.load\<close>, called with the loaded texture.\<close>

definition onLoad :: "texture \<Rightarrow> shader \<Rightarrow> shader" where
  "onLoad tex s =
     (let s1 = (case texImage tex of
                  Some (width, height) \<Rightarrow> s\<lparr>imgAspect := width / height\<rparr>
                | None \<Rightarrow> s)
      in s1\<lparr>currentTexture := Some tex\<rparr>)"

text \<open>
  The user selects an image or clears the selection; the \<^verbatim>\<open>i\<close>-th load in flight completes
  with the image of the given size. A load that fails calls nothing.
\<close>

datatype shaderEvent =
    SelectBackground "string option"
  | LoadCompletes nat "(real \<times> real) option"
  | LoadFails nat

fun shaderStep :: "shaderEvent \<Rightarrow> shader \<Rightarrow> shader" where
  "shaderStep (SelectBackground url) s =
     (if url = backgroundUrl s then s else textureEffect (s\<lparr>backgroundUrl := url\<rparr>))"
| "shaderStep (LoadCompletes i img) s =
     (if i < length (inFlight s)
      then onLoad \<lparr>texSrc = inFlight s ! i, texImage = img\<rparr>
             (s\<lparr>inFlight := take i (inFlight s) @ drop (Suc i) (inFlight s)\<rparr>)
      else s)"
| "shaderStep (LoadFails i) s =
     (if i < length (inFlight s)
      then s\<lparr>inFlight := take i (inFlight s) @ drop (Suc i) (inFlight s)\<rparr>
      else s)"

fun shaderRun :: "shaderEvent list \<Rightarrow> shader \<Rightarrow> shader" where
  "shaderRun [] s = s"
| "shaderRun (e # es) s = shaderRun es (shaderStep e s)"

section \<open>Auxiliary facts about the shader\<close>

lemma fract_range: "0 \<le> fract x \<and> fract x < 1"
  unfolding fract_def using frac_ge_0 [of x] frac_lt_1 [of x] by (simp add: frac_def)

lemma clamp01: "0 \<le> clamp x 0 1 \<and> clamp x 0 1 \<le> 1"
  by (simp add: clamp_def)

lemma hermite_range:
  fixes t :: real
  assumes "0 \<le> t" "t \<le> 1"
  shows "0 \<le> t * t * (3 - 2 * t) \<and> t * t * (3 - 2 * t) \<le> 1"
proof
  show "0 \<le> t * t * (3 - 2 * t)" using assms by simp
  have "1 - t * t * (3 - 2 * t) = (1 - t) * (1 - t) * (1 + 2 * t)" by algebra
  moreover have "0 \<le> (1 - t) * (1 - t) * (1 + 2 * t)" using assms by simp
  ultimately show "t * t * (3 - 2 * t) \<le> 1" by linarith
qed

lemma smoothstep_range: "0 \<le> smoothstep a b x \<and> smoothstep a b x \<le> 1"
  unfolding smoothstep_def Let_def using hermite_range clamp01 by blast

lemma S_range: "0 \<le> S a b x \<and> S a b x \<le> 1"
  by (simp add: S_def smoothstep_range)

lemma mix_range:
  assumes "0 \<le> t" "t \<le> 1" "a \<le> b"
  shows "a \<le> mix a b t \<and> mix a b t \<le> b"
proof -
  have "mix a b t = a + (b - a) * t" by (simp add: mix_def algebra_simps)
  moreover have "0 \<le> (b - a) * t" using assms by simp
  moreover have "(b - a) * t \<le> (b - a) * 1" using assms by (intro mult_left_mono) auto
  ultimately show ?thesis by simp
qed

lemma N13_range:
  "0 \<le> fst (N13 p) \<and> fst (N13 p) < 1 \<and> 0 \<le> fst (snd (N13 p)) \<and> fst (snd (N13 p)) < 1
   \<and> 0 \<le> snd (snd (N13 p)) \<and> snd (snd (N13 p)) < 1"
  by (simp add: N13_def Let_def fract_range)

lemma N_range: "0 \<le> N t \<and> N t < 1"
  by (simp add: N_def fract_range)

lemma Saw_range: "0 \<le> Saw b t \<and> Saw b t \<le> 1"
  unfolding Saw_def using S_range [of 0 b t] S_range [of 1 b t]
  by (simp add: mult_le_one)

lemma sizeHierarchy_range: "0 \<le> snd (snd (N13 p)) ^ 3 \<and> snd (snd (N13 p)) ^ 3 \<le> 1"
  using N13_range [of p] by (simp add: power_le_one)

lemma heightMult_range: "0 \<le> mix 0.3 1 (snd (snd (N13 p)) ^ 3) \<and> mix 0.3 1 (snd (snd (N13 p)) ^ 3) \<le> 1"
  using mix_range [of "snd (snd (N13 p)) ^ 3" "0.3" 1] sizeHierarchy_range [of p] by simp

lemma height_comb:
  fixes m1 m2 m3 m4 hm :: real
  assumes "0 \<le> m1 \<and> m1 \<le> 1" "0 \<le> m2 \<and> m2 \<le> 1" "0 \<le> m3 \<and> m3 \<le> 1" "0 \<le> m4 \<and> m4 \<le> 1"
    "0 \<le> hm \<and> hm \<le> 1"
  shows "0 \<le> m1 * hm + m2 * m3 * m4 * hm \<and> m1 * hm + m2 * m3 * m4 * hm \<le> 2"
proof -
  have a: "0 \<le> m1 * hm \<and> m1 * hm \<le> 1" using assms by (simp add: mult_le_one)
  have b: "0 \<le> m2 * m3 \<and> m2 * m3 \<le> 1" using assms by (simp add: mult_le_one)
  have c: "0 \<le> m2 * m3 * m4 \<and> m2 * m3 * m4 \<le> 1" using b assms by (simp add: mult_le_one)
  have d: "0 \<le> m2 * m3 * m4 * hm \<and> m2 * m3 * m4 * hm \<le> 1" using c assms by (simp add: mult_le_one)
  show ?thesis using a d by linarith
qed

lemma DropLayer2_height_range: "0 \<le> fst (DropLayer2 u uv t) \<and> fst (DropLayer2 u uv t) \<le> 2"
  unfolding DropLayer2_def Let_def fst_conv
  by (rule height_comb) (rule S_range heightMult_range)+

lemma sqrt_unit: "0 \<le> x \<and> x \<le> 1 \<Longrightarrow> 0 \<le> sqrt x \<and> sqrt x \<le> 1"
  by simp

lemma trail_comb:
  fixes a b r :: real
  assumes "0 \<le> a \<and> a \<le> 1" "0 \<le> b \<and> b \<le> 1" "0 \<le> r \<and> r \<le> 1"
  shows "0 \<le> a * (b * r * r) \<and> a * (b * r * r) \<le> 1"
proof -
  have c: "0 \<le> b * r \<and> b * r \<le> 1" using assms by (simp add: mult_le_one)
  have d: "0 \<le> b * r * r \<and> b * r * r \<le> 1" using c assms by (simp add: mult_le_one)
  show ?thesis using d assms by (simp add: mult_le_one)
qed

lemma DropLayer2_trail_range: "0 \<le> snd (DropLayer2 u uv t) \<and> snd (DropLayer2 u uv t) \<le> 1"
  unfolding DropLayer2_def Let_def snd_conv
  by (rule trail_comb) (rule S_range sqrt_unit)+

lemma static_comb:
  fixes h f s :: real
  assumes "0 \<le> h \<and> h \<le> 1" "0 \<le> f \<and> f < 1" "0 \<le> s \<and> s \<le> 1"
  shows "0 \<le> h * f * s \<and> h * f * s \<le> 1"
proof -
  have c: "0 \<le> h * f \<and> h * f \<le> 1" using assms by (simp add: mult_le_one)
  show ?thesis using c assms by (simp add: mult_le_one)
qed

lemma StaticDrops_range: "0 \<le> StaticDrops u uv t \<and> StaticDrops u uv t \<le> 1"
  unfolding StaticDrops_def Let_def
  by (rule static_comb) (rule S_range fract_range Saw_range)+

lemma staticDrops_range: "0 \<le> staticDrops u \<and> staticDrops u \<le> 0.3"
  unfolding staticDrops_def using S_range [of 0 1 "uRainIntensity u"] by simp

lemma layer1_range: "0 \<le> layer1 u \<and> layer1 u \<le> 1"
  unfolding layer1_def by (rule S_range)

lemma layer2_range: "0 \<le> layer2 u \<and> layer2 u \<le> 0.3"
  unfolding layer2_def using S_range [of "0.5" 1 "uRainIntensity u"] by simp

lemma scaled_range:
  fixes x l :: real
  assumes "0 \<le> x \<and> x \<le> a" "0 \<le> l \<and> l \<le> b"
  shows "0 \<le> x * l \<and> x * l \<le> a * b"
  using assms by (simp add: mult_mono)

lemma rawHeight_range:
  "0 \<le> rawHeight u uv t (staticDrops u) (layer1 u) (layer2 u)
   \<and> rawHeight u uv t (staticDrops u) (layer1 u) (layer2 u) \<le> 2.9"
proof -
  have a: "0 \<le> StaticDrops u uv t * staticDrops u \<and> StaticDrops u uv t * staticDrops u \<le> 1 * 0.3"
    by (rule scaled_range [OF StaticDrops_range staticDrops_range])
  have b: "0 \<le> fst (DropLayer2 u uv t) * layer1 u \<and> fst (DropLayer2 u uv t) * layer1 u \<le> 2 * 1"
    by (rule scaled_range [OF DropLayer2_height_range layer1_range])
  have c: "0 \<le> fst (DropLayer2 u (fst uv * 1.85, snd uv * 1.85) t) * layer2 u
       \<and> fst (DropLayer2 u (fst uv * 1.85, snd uv * 1.85) t) * layer2 u \<le> 2 * 0.3"
    by (rule scaled_range [OF DropLayer2_height_range layer2_range])
  show ?thesis unfolding rawHeight_def using a b c by simp
qed

lemma GetHeightAndTrail_height:
  "fst (GetHeightAndTrail u uv t l0 l1 l2) = smoothstep 0 1 (rawHeight u uv t l0 l1 l2)"
  by (simp add: GetHeightAndTrail_def rawHeight_def Let_def)

lemma GetHeightAndTrail_trail:
  "snd (GetHeightAndTrail u uv t l0 l1 l2) =
     max (snd (DropLayer2 u uv t) * l1) (snd (DropLayer2 u (fst uv * 1.85, snd uv * 1.85) t) * l2)"
  by (simp add: GetHeightAndTrail_def Let_def)

lemma trail_range:
  "0 \<le> snd (GetHeightAndTrail u uv t (staticDrops u) (layer1 u) (layer2 u))
   \<and> snd (GetHeightAndTrail u uv t (staticDrops u) (layer1 u) (layer2 u)) \<le> 1"
proof -
  have b: "0 \<le> snd (DropLayer2 u uv t) * layer1 u \<and> snd (DropLayer2 u uv t) * layer1 u \<le> 1 * 1"
    by (rule scaled_range [OF DropLayer2_trail_range layer1_range])
  have c: "0 \<le> snd (DropLayer2 u (fst uv * 1.85, snd uv * 1.85) t) * layer2 u
       \<and> snd (DropLayer2 u (fst uv * 1.85, snd uv * 1.85) t) * layer2 u \<le> 1 * 0.3"
    by (rule scaled_range [OF DropLayer2_trail_range layer2_range])
  show ?thesis unfolding GetHeightAndTrail_trail using b c by (auto simp: max_def)
qed

lemma gradeChannel_range:
  assumes "0 \<le> uContrast u" "uContrast u \<le> 1" "0 \<le> c * uBrightness u" "c * uBrightness u \<le> 1"
  shows "0 \<le> gradeChannel u c \<and> gradeChannel u c \<le> 1"
proof -
  define k where "k = uContrast u"
  define x where "x = c * uBrightness u - 0.5"
  have x: "- 0.5 \<le> x" "x \<le> 0.5" using assms by (simp_all add: x_def)
  have k: "0 \<le> k" "k \<le> 1" using assms by (simp_all add: k_def)
  have "\<bar>x * k\<bar> \<le> 0.5 * 1" unfolding abs_mult using x k by (intro mult_mono) auto
  then have "- 0.5 \<le> x * k \<and> x * k \<le> 0.5" by linarith
  then show ?thesis unfolding gradeChannel_def x_def [symmetric] k_def [symmetric] by simp
qed

lemma DropLayer2_cong:
  assumes "uDropletSize u = uDropletSize u'"
  shows "DropLayer2 u uv t = DropLayer2 u' uv t"
  unfolding DropLayer2_def assms by (rule refl)

lemma StaticDrops_cong:
  assumes "uDropletSize u = uDropletSize u'"
  shows "StaticDrops u uv t = StaticDrops u' uv t"
  unfolding StaticDrops_def assms by (rule refl)

lemma smoothstep_below: "edge0 < edge1 \<Longrightarrow> x \<le> edge0 \<Longrightarrow> smoothstep edge0 edge1 x = 0"
  by (simp add: smoothstep_def clamp_def Let_def max_def min_def divide_le_0_iff)

lemma gains_no_rain:
  assumes "uRainIntensity u = 0"
  shows "staticDrops u = 0" "layer1 u = 0" "layer2 u = 0"
  using assms by (simp_all add: staticDrops_def layer1_def layer2_def S_def smoothstep_below)

lemma GetHeightAndTrail_no_gain: "GetHeightAndTrail u uv t 0 0 0 = (0, 0)"
  by (simp add: GetHeightAndTrail_def smoothstep_below)

lemma normal_no_rain: "uRainIntensity u = 0 \<Longrightarrow> normal u vUv = (0, 0)"
  by (simp add: normal_def gains_no_rain GetHeightAndTrail_no_gain)

lemma lighting_flat: "lighting (0, 0) 0 col = col"
  by (cases col) (simp add: lighting_def smoothstep_below adds3_def scale3_def mix_def)

lemma main_no_rain:
  assumes "uRainIntensity u = 0"
  shows "main u vUv =
     grading u (vignette vUv (lightningFlash u (background u vUv (zoomUV u vUv) (uBlurStrength u * 6))))"
proof -
  have h: "heightAndTrail u vUv = (0, 0)"
    using assms by (simp add: heightAndTrail_def gains_no_rain GetHeightAndTrail_no_gain)
  have r: "refractionUV u vUv = zoomUV u vUv"
    using assms by (simp add: refractionUV_def normal_no_rain)
  have f: "focus u vUv = uBlurStrength u * 6"
    by (simp add: focus_def h S_def smoothstep_below mix_def)
  show ?thesis
    by (simp add: main_def h r f normal_no_rain [OF assms] lighting_flat)
qed

section \<open>Properties of the shader\<close>

text \<open>
  Claim C1. The hashes \<^verbatim>\<open>N13\<close> and \<^verbatim>\<open>N\<close> are functions of their seed alone, with every
  component of \<^verbatim>\<open>N13\<close> and the value of \<^verbatim>\<open>N\<close> in \<open>[0, 1)\<close>. The height-field compositor is
  a function of the coordinate, the time, the three layer gains and the droplet-size setting
  alone: two evaluations under any two sets of uniforms that agree on the droplet size (they
  may differ in the time uniform, the lightning value, the texture and everything else)
  return the same height and trail.
\<close>

theorem hashes_and_compositor_deterministic:
  "(0 \<le> fst (N13 p) \<and> fst (N13 p) < 1 \<and> 0 \<le> fst (snd (N13 p)) \<and> fst (snd (N13 p)) < 1
     \<and> 0 \<le> snd (snd (N13 p)) \<and> snd (snd (N13 p)) < 1)
   \<and> (0 \<le> N s \<and> N s < 1)
   \<and> (uDropletSize u = uDropletSize u' \<longrightarrow>
        GetHeightAndTrail u uv t l0 l1 l2 = GetHeightAndTrail u' uv t l0 l1 l2)"
proof (intro conjI impI)
  assume "uDropletSize u = uDropletSize u'"
  then show "GetHeightAndTrail u uv t l0 l1 l2 = GetHeightAndTrail u' uv t l0 l1 l2"
    unfolding GetHeightAndTrail_def
    by (simp only: DropLayer2_cong [of u u'] StaticDrops_cong [of u u'])
qed (simp_all add: N13_range N_range)

theorem hashes_and_compositor_deterministic_witness:
  "uDropletSize exampleUniforms = uDropletSize (exampleUniforms\<lparr>uTime := 5, uLightning := 1\<rparr>)
   \<and> GetHeightAndTrail exampleUniforms (1/4, 3/4) 2 (1/10) (1/2) (1/5)
       = GetHeightAndTrail (exampleUniforms\<lparr>uTime := 5, uLightning := 1\<rparr>) (1/4, 3/4) 2 (1/10) (1/2) (1/5)
   \<and> 0 \<le> N 7 \<and> N 7 < 1 \<and> 0 \<le> fst (N13 7) \<and> fst (N13 7) < 1"
  using hashes_and_compositor_deterministic [of 7 7 exampleUniforms
      "exampleUniforms\<lparr>uTime := 5, uLightning := 1\<rparr>" "(1/4, 3/4)" 2 "1/10" "1/2" "1/5"]
  by simp

text \<open>
  Claim C2, as stated, fails: the grading stage does not clamp. With the settings in their
  documented ranges, brightness 0 and contrast 2, every channel of the final colour is
  \<open>- 1/2\<close>, whatever the background.
\<close>

theorem grading_leaves_displayable_range:
  "documented_ranges (exampleUniforms\<lparr>uBrightness := 0, uContrast := 2\<rparr>)
   \<and> fst (main (exampleUniforms\<lparr>uBrightness := 0, uContrast := 2\<rparr>) (1/2, 1/2)) = - 1/2"
  by (simp add: documented_ranges_def exampleUniforms_def main_def grading_def gradeChannel_def
       split_def)

text \<open>
  Claim C2, amended. For settings in the documented ranges, at every coordinate and time:
  the combined height before the final \<^verbatim>\<open>smoothstep\<close> lies in \<open>[0, 2.9]\<close> (0.3 for the mist,
  2 for the first layer and 0.6 for the second); the height returned is the \<^verbatim>\<open>smoothstep\<close> of
  it and lies in \<open>[0, 1]\<close>; the trail mask lies in \<open>[0, 1]\<close>. A graded channel is
  \<open>(c * brightness - 0.5) * contrast + 0.5\<close>: it lies in \<open>[0, 1]\<close> when the contrast is at most 1
  and \<open>c * brightness\<close> lies in \<open>[0, 1]\<close>. Outside these settings the stage leaves the clipping
  to the rendering surface.
\<close>

theorem range_invariants:
  assumes "documented_ranges u"
  shows "0 \<le> rawHeight u uv t (staticDrops u) (layer1 u) (layer2 u)
     \<and> rawHeight u uv t (staticDrops u) (layer1 u) (layer2 u) \<le> 2.9
     \<and> fst (GetHeightAndTrail u uv t (staticDrops u) (layer1 u) (layer2 u))
         = smoothstep 0 1 (rawHeight u uv t (staticDrops u) (layer1 u) (layer2 u))
     \<and> 0 \<le> fst (GetHeightAndTrail u uv t (staticDrops u) (layer1 u) (layer2 u))
     \<and> fst (GetHeightAndTrail u uv t (staticDrops u) (layer1 u) (layer2 u)) \<le> 1
     \<and> 0 \<le> snd (GetHeightAndTrail u uv t (staticDrops u) (layer1 u) (layer2 u))
     \<and> snd (GetHeightAndTrail u uv t (staticDrops u) (layer1 u) (layer2 u)) \<le> 1
     \<and> (uContrast u \<le> 1 \<and> 0 \<le> c * uBrightness u \<and> c * uBrightness u \<le> 1 \<longrightarrow>
          0 \<le> gradeChannel u c \<and> gradeChannel u c \<le> 1)"
proof -
  have k: "0 \<le> uContrast u" using assms by (simp add: documented_ranges_def)
  have g: "uContrast u \<le> 1 \<and> 0 \<le> c * uBrightness u \<and> c * uBrightness u \<le> 1 \<longrightarrow>
          0 \<le> gradeChannel u c \<and> gradeChannel u c \<le> 1"
    using k gradeChannel_range [of u c] by blast
  show ?thesis
    using rawHeight_range [of u uv t] trail_range [of u uv t] g
      smoothstep_range [of 0 1 "rawHeight u uv t (staticDrops u) (layer1 u) (layer2 u)"]
    by (simp only: GetHeightAndTrail_height)
qed

theorem range_invariants_witness:
  "documented_ranges exampleUniforms
   \<and> uContrast exampleUniforms \<le> 1 \<and> 0 \<le> 1/2 * uBrightness exampleUniforms
   \<and> 1/2 * uBrightness exampleUniforms \<le> 1
   \<and> 0 \<le> gradeChannel exampleUniforms (1/2) \<and> gradeChannel exampleUniforms (1/2) \<le> 1
   \<and> 0 \<le> rawHeight exampleUniforms (1/4, 3/4) 2 (staticDrops exampleUniforms)
           (layer1 exampleUniforms) (layer2 exampleUniforms)
   \<and> snd (GetHeightAndTrail exampleUniforms (1/4, 3/4) 2 (staticDrops exampleUniforms)
           (layer1 exampleUniforms) (layer2 exampleUniforms)) \<le> 1"
proof -
  have d: "documented_ranges exampleUniforms"
    by (simp add: documented_ranges_def exampleUniforms_def)
  have h: "uContrast exampleUniforms \<le> 1 \<and> 0 \<le> 1/2 * uBrightness exampleUniforms
      \<and> 1/2 * uBrightness exampleUniforms \<le> 1"
    by (simp add: exampleUniforms_def)
  show ?thesis
    using d h range_invariants [OF d, of "(1/4, 3/4)" 2 "1/2"] by blast
qed

text \<open>
  Claim C7. In the auto-fit cover transform, with a canvas and an image of positive size:
  when the screen is wider than the image only the vertical texture coordinate is rescaled
  (about the centre, by the ratio of the aspects) and the horizontal one is returned
  unchanged; when the image is wider than the screen only the horizontal one is rescaled.
  In both cases, and when the aspects are equal, the map from the screen to the image is
  isotropic: measured in units of the image height and of the screen height, a displacement
  on the screen is scaled by one positive factor \<open>k\<close> along both axes.
\<close>

theorem cover_fit_isotropic:
  assumes "0 < fst (uResolution u)" "0 < snd (uResolution u)" "0 < uImgAspect u"
  shows "(fst (uResolution u) / snd (uResolution u) > uImgAspect u \<longrightarrow>
            fst (coverFit u p) = fst p
            \<and> snd (coverFit u p)
                = (snd p - 0.5) / ((fst (uResolution u) / snd (uResolution u)) / uImgAspect u) + 0.5)
       \<and> (fst (uResolution u) / snd (uResolution u) < uImgAspect u \<longrightarrow>
            snd (coverFit u p) = snd p
            \<and> fst (coverFit u p)
                = (fst p - 0.5) / (uImgAspect u / (fst (uResolution u) / snd (uResolution u))) + 0.5)
       \<and> (\<exists>k>0. \<forall>a b.
            (fst (coverFit u a) - fst (coverFit u b)) * uImgAspect u
               = k * ((fst a - fst b) * (fst (uResolution u) / snd (uResolution u)))
            \<and> snd (coverFit u a) - snd (coverFit u b) = k * (snd a - snd b))"
proof -
  define sa where "sa = fst (uResolution u) / snd (uResolution u)"
  define ia where "ia = uImgAspect u"
  have sa: "0 < sa" using assms by (simp add: sa_def)
  have ia: "0 < ia" using assms by (simp add: ia_def)
  have iso: "\<exists>k>0. \<forall>a b.
            (fst (coverFit u a) - fst (coverFit u b)) * ia = k * ((fst a - fst b) * sa)
            \<and> snd (coverFit u a) - snd (coverFit u b) = k * (snd a - snd b)"
  proof (cases "sa > ia")
    case True
    have "0 < ia / sa" using sa ia by simp
    moreover have "\<forall>a b. (fst (coverFit u a) - fst (coverFit u b)) * ia = ia / sa * ((fst a - fst b) * sa)
            \<and> snd (coverFit u a) - snd (coverFit u b) = ia / sa * (snd a - snd b)"
      using True sa ia by (simp add: coverFit_def sa_def [symmetric] ia_def [symmetric] field_simps)
    ultimately show ?thesis by blast
  next
    case False
    have "\<forall>a b. (fst (coverFit u a) - fst (coverFit u b)) * ia = 1 * ((fst a - fst b) * sa)
            \<and> snd (coverFit u a) - snd (coverFit u b) = 1 * (snd a - snd b)"
      using False sa ia by (simp add: coverFit_def sa_def [symmetric] ia_def [symmetric] field_simps)
    then show ?thesis using zero_less_one by blast
  qed
  show ?thesis
    using iso unfolding sa_def ia_def by (simp add: coverFit_def Let_def)
qed

theorem cover_fit_isotropic_witness:
  "(0 < fst (uResolution exampleUniforms) \<and> 0 < snd (uResolution exampleUniforms)
      \<and> 0 < uImgAspect exampleUniforms
      \<and> fst (uResolution exampleUniforms) / snd (uResolution exampleUniforms)
          > uImgAspect exampleUniforms
      \<and> fst (coverFit exampleUniforms (1/4, 1/4)) = 1/4)
   \<and> (0 < fst (uResolution (exampleUniforms\<lparr>uResolution := (1000, 1000), uImgAspect := 21/9\<rparr>))
      \<and> 0 < snd (uResolution (exampleUniforms\<lparr>uResolution := (1000, 1000), uImgAspect := 21/9\<rparr>))
      \<and> 0 < uImgAspect (exampleUniforms\<lparr>uResolution := (1000, 1000), uImgAspect := 21/9\<rparr>)
      \<and> fst (uResolution (exampleUniforms\<lparr>uResolution := (1000, 1000), uImgAspect := 21/9\<rparr>))
            / snd (uResolution (exampleUniforms\<lparr>uResolution := (1000, 1000), uImgAspect := 21/9\<rparr>))
          < uImgAspect (exampleUniforms\<lparr>uResolution := (1000, 1000), uImgAspect := 21/9\<rparr>)
      \<and> snd (coverFit (exampleUniforms\<lparr>uResolution := (1000, 1000), uImgAspect := 21/9\<rparr>) (1/4, 1/4))
          = 1/4)"
proof -
  have a: "0 < fst (uResolution exampleUniforms)" "0 < snd (uResolution exampleUniforms)"
    "0 < uImgAspect exampleUniforms"
    "fst (uResolution exampleUniforms) / snd (uResolution exampleUniforms)
          > uImgAspect exampleUniforms"
    by (simp_all add: exampleUniforms_def)
  have b: "0 < fst (uResolution (exampleUniforms\<lparr>uResolution := (1000, 1000), uImgAspect := 21/9\<rparr>))"
    "0 < snd (uResolution (exampleUniforms\<lparr>uResolution := (1000, 1000), uImgAspect := 21/9\<rparr>))"
    "0 < uImgAspect (exampleUniforms\<lparr>uResolution := (1000, 1000), uImgAspect := 21/9\<rparr>)"
    "fst (uResolution (exampleUniforms\<lparr>uResolution := (1000, 1000), uImgAspect := 21/9\<rparr>))
            / snd (uResolution (exampleUniforms\<lparr>uResolution := (1000, 1000), uImgAspect := 21/9\<rparr>))
          < uImgAspect (exampleUniforms\<lparr>uResolution := (1000, 1000), uImgAspect := 21/9\<rparr>)"
    by simp_all
  have c: "fst (coverFit exampleUniforms (1/4, 1/4)) = 1/4"
    using cover_fit_isotropic [OF a(1) a(2) a(3), of "(1/4, 1/4)"] a(4) by simp
  have d: "snd (coverFit (exampleUniforms\<lparr>uResolution := (1000, 1000), uImgAspect := 21/9\<rparr>) (1/4, 1/4))
          = 1/4"
    using cover_fit_isotropic [OF b(1) b(2) b(3), of "(1/4, 1/4)"] b(4) by simp
  show ?thesis using a b c d by blast
qed

text \<open>
  Claim C8, as stated, fails in its last part: with no rain the rendered colour is not the
  background sample itself. With the default brightness 1.1 and a white image, the centre
  fragment is rendered \<open>(1.1, 1.1, 1.1)\<close>, not white.
\<close>

theorem no_rain_colour_is_graded:
  "uRainIntensity (exampleUniforms\<lparr>uRainIntensity := 0, uHasTexture := True,
       uBgTexture := plainTexture (1, 1, 1)\<rparr>) = 0
   \<and> main (exampleUniforms\<lparr>uRainIntensity := 0, uHasTexture := True,
       uBgTexture := plainTexture (1, 1, 1)\<rparr>) (1/2, 1/2)
      \<noteq> background (exampleUniforms\<lparr>uRainIntensity := 0, uHasTexture := True,
            uBgTexture := plainTexture (1, 1, 1)\<rparr>) (1/2, 1/2)
         (zoomUV (exampleUniforms\<lparr>uRainIntensity := 0, uHasTexture := True,
            uBgTexture := plainTexture (1, 1, 1)\<rparr>) (1/2, 1/2))
         (uBlurStrength (exampleUniforms\<lparr>uRainIntensity := 0, uHasTexture := True,
            uBgTexture := plainTexture (1, 1, 1)\<rparr>) * 6)"
  by (simp add: main_no_rain)
     (simp add: exampleUniforms_def background_def grading_def gradeChannel_def vignette_def
       lightningFlash_def length2_def scale3_def plainTexture_def)

text \<open>
  Claim C8, amended. With the settings in their documented ranges and \<^verbatim>\<open>rainIntensity = 0\<close>:
  the three layer gains are 0; the height and the trail mask are 0 at every coordinate and
  time; the finite-difference normal is 0; the refracted coordinate is the zoomed fragment
  coordinate itself; and the rendered colour is the background sampled at that coordinate
  (with blur \<open>glassBlur * 6\<close>), passed through the lightning blend, the vignette and the
  brightness and contrast grading. No specular, fresnel or edge-darkening term contributes.
\<close>

theorem no_rain_no_refraction:
  assumes "documented_ranges u" "uRainIntensity u = 0"
  shows "staticDrops u = 0 \<and> layer1 u = 0 \<and> layer2 u = 0
     \<and> GetHeightAndTrail u uv t (staticDrops u) (layer1 u) (layer2 u) = (0, 0)
     \<and> normal u vUv = (0, 0)
     \<and> refractionUV u vUv = zoomUV u vUv
     \<and> main u vUv =
         grading u (vignette vUv (lightningFlash u
           (background u vUv (zoomUV u vUv) (uBlurStrength u * 6))))"
proof -
  have r: "refractionUV u vUv = zoomUV u vUv"
    using assms(2) by (simp add: refractionUV_def normal_no_rain)
  show ?thesis
    using assms(2) r
    by (simp add: gains_no_rain GetHeightAndTrail_no_gain normal_no_rain main_no_rain)
qed

theorem no_rain_no_refraction_witness:
  "documented_ranges (exampleUniforms\<lparr>uRainIntensity := 0\<rparr>)
   \<and> uRainIntensity (exampleUniforms\<lparr>uRainIntensity := 0\<rparr>) = 0
   \<and> normal (exampleUniforms\<lparr>uRainIntensity := 0\<rparr>) (1/4, 3/4) = (0, 0)
   \<and> refractionUV (exampleUniforms\<lparr>uRainIntensity := 0\<rparr>) (1/4, 3/4)
       = zoomUV (exampleUniforms\<lparr>uRainIntensity := 0\<rparr>) (1/4, 3/4)"
proof -
  have d: "documented_ranges (exampleUniforms\<lparr>uRainIntensity := 0\<rparr>)"
    by (simp add: documented_ranges_def exampleUniforms_def)
  have z: "uRainIntensity (exampleUniforms\<lparr>uRainIntensity := 0\<rparr>) = 0" by simp
  show ?thesis
    using d z no_rain_no_refraction [OF d z, of _ _ "(1/4, 3/4)"] by blast
qed

section \<open>Auxiliary facts about the audio service and the scheduler\<close>

subsection \<open>The distance of a strike\<close>

lemma strikeDistance_clamp: "strikeDistance s raw = clamp (raw - s * 0.3) 0 1"
  by (simp add: strikeDistance_def clamp_def max_def min_def)

lemma strikeDistance_antimono: "s1 \<le> s2 \<Longrightarrow> strikeDistance s2 raw \<le> strikeDistance s1 raw"
  by (simp add: strikeDistance_def max_def min_def)

lemma strikeDistance_strict:
  "0.03 < raw \<Longrightarrow> raw < 1 \<Longrightarrow> strikeDistance 0.9 raw < strikeDistance 0.1 raw"
  by (simp add: strikeDistance_def max_def min_def)

lemma sum_list_strict:
  fixes f g :: "real \<Rightarrow> real"
  assumes "\<forall>x\<in>set xs. f x \<le> g x" "\<exists>x\<in>set xs. f x < g x"
  shows "sum_list (map f xs) < sum_list (map g xs)"
  using assms
proof (induction xs)
  case Nil
  then show ?case by simp
next
  case (Cons a xs)
  have le: "sum_list (map f xs) \<le> sum_list (map g xs)"
    using Cons.prems(1) by (intro sum_list_mono) simp
  show ?case
  proof (cases "f a < g a")
    case True
    then show ?thesis using le by simp
  next
    case False
    then have "\<exists>x\<in>set xs. f x < g x" using Cons.prems(2) by auto
    moreover have "\<forall>x\<in>set xs. f x \<le> g x" using Cons.prems(1) by simp
    ultimately have "sum_list (map f xs) < sum_list (map g xs)" by (rule Cons.IH [rotated])
    moreover have "f a \<le> g a" using Cons.prems(1) by simp
    ultimately show ?thesis by simp
  qed
qed

subsection \<open>What each operation leaves unchanged\<close>

lemmas ops_defs = Math_random_def setTimeout_def clearTimeout_def setLightningVal_def

lemma triggerThunder_frame [simp]:
  "stormIntensity (triggerThunder d w) = stormIntensity w"
  "isAudioPlaying (triggerThunder d w) = isAudioPlaying w"
  "audioVolume (triggerThunder d w) = audioVolume w"
  "mounted (triggerThunder d w) = mounted w"
  "lightningLoopRef (triggerThunder d w) = lightningLoopRef w"
  "thunderPool (triggerThunder d w) = thunderPool w"
  "isInitialized (triggerThunder d w) = isInitialized w"
  "globalVolumeScalar (triggerThunder d w) = globalVolumeScalar w"
  "rng (triggerThunder d w) = rng w"
  "calls (triggerThunder d w) = calls w"
  "now (triggerThunder d w) = now w"
  by (simp_all add: triggerThunder_def ops_defs Let_def split_def)

lemma triggerThunder_timers:
  "timers (triggerThunder d w) =
     (if \<not> isInitialized w \<or> globalVolumeScalar w \<le> 0.05 then timers w
      else timers w @
        [\<lparr>tid = nextTimerId w, delay = d * 4000 + rng w (rngPos w) * 500,
          due = now w + max 0 (d * 4000 + rng w (rngPos w) * 500),
          cb = ThunderPlay (freeNode (thunderPool w))
                 (max 0.1 ((1 - d) * 0.8) * globalVolumeScalar w)
                 (1.1 - d * 0.5 + rng w (rngPos w + 1) * 0.1)\<rparr>])"
  by (simp add: triggerThunder_def ops_defs Let_def split_def)

lemma triggerThunder_loopTimers [simp]: "loopTimers (triggerThunder d w) = loopTimers w"
  by (simp add: triggerThunder_timers loopTimers_def)

lemma doFlash_frame [simp]:
  "stormIntensity (doFlash b w) = stormIntensity w"
  "isAudioPlaying (doFlash b w) = isAudioPlaying w"
  "audioVolume (doFlash b w) = audioVolume w"
  "mounted (doFlash b w) = mounted w"
  "lightningLoopRef (doFlash b w) = lightningLoopRef w"
  "thunderPool (doFlash b w) = thunderPool w"
  "isInitialized (doFlash b w) = isInitialized w"
  "globalVolumeScalar (doFlash b w) = globalVolumeScalar w"
  "rng (doFlash b w) = rng w"
  "calls (doFlash b w) = calls w @ [SetLightningVal b]"
  "now (doFlash b w) = now w"
  by (simp_all add: doFlash_def ops_defs Let_def split_def)

lemma doFlash_timers:
  "timers (doFlash b w) =
     timers w @ [\<lparr>tid = nextTimerId w, delay = 100 + rng w (rngPos w) * 200,
                  due = now w + max 0 (100 + rng w (rngPos w) * 200), cb = FlashOff\<rparr>]"
  by (simp add: doFlash_def ops_defs Let_def split_def)

lemma doFlash_loopTimers [simp]: "loopTimers (doFlash b w) = loopTimers w"
  by (simp add: doFlash_timers loopTimers_def)

lemma triggerLightningEvent_frame [simp]:
  "stormIntensity (triggerLightningEvent s a w) = stormIntensity w"
  "isAudioPlaying (triggerLightningEvent s a w) = isAudioPlaying w"
  "audioVolume (triggerLightningEvent s a w) = audioVolume w"
  "mounted (triggerLightningEvent s a w) = mounted w"
  "lightningLoopRef (triggerLightningEvent s a w) = lightningLoopRef w"
  "thunderPool (triggerLightningEvent s a w) = thunderPool w"
  "isInitialized (triggerLightningEvent s a w) = isInitialized w"
  "globalVolumeScalar (triggerLightningEvent s a w) = globalVolumeScalar w"
  "rng (triggerLightningEvent s a w) = rng w"
  "now (triggerLightningEvent s a w) = now w"
  by (simp_all add: triggerLightningEvent_def ops_defs Let_def split_def)

lemma triggerLightningEvent_loopTimers [simp]:
  "loopTimers (triggerLightningEvent s a w) = loopTimers w"
  by (simp add: triggerLightningEvent_def ops_defs Let_def split_def loopTimers_def
       doFlash_timers triggerThunder_timers)

lemma scheduleLightning_frame [simp]:
  "stormIntensity (scheduleLightning s a w) = stormIntensity w"
  "isAudioPlaying (scheduleLightning s a w) = isAudioPlaying w"
  "audioVolume (scheduleLightning s a w) = audioVolume w"
  "mounted (scheduleLightning s a w) = mounted w"
  "thunderPool (scheduleLightning s a w) = thunderPool w"
  "isInitialized (scheduleLightning s a w) = isInitialized w"
  "globalVolumeScalar (scheduleLightning s a w) = globalVolumeScalar w"
  "rng (scheduleLightning s a w) = rng w"
  "calls (scheduleLightning s a w) = calls w"
  "now (scheduleLightning s a w) = now w"
  by (simp_all add: scheduleLightning_def ops_defs Let_def split_def)

lemma playThunder_frame [simp]:
  "stormIntensity (playThunder i v r w) = stormIntensity w"
  "isAudioPlaying (playThunder i v r w) = isAudioPlaying w"
  "audioVolume (playThunder i v r w) = audioVolume w"
  "mounted (playThunder i v r w) = mounted w"
  "lightningLoopRef (playThunder i v r w) = lightningLoopRef w"
  "length (thunderPool (playThunder i v r w)) = length (thunderPool w)"
  "isInitialized (playThunder i v r w) = isInitialized w"
  "globalVolumeScalar (playThunder i v r w) = globalVolumeScalar w"
  "rng (playThunder i v r w) = rng w"
  "calls (playThunder i v r w) = calls w"
  "timers (playThunder i v r w) = timers w"
  "now (playThunder i v r w) = now w"
  "rngPos (playThunder i v r w) = rngPos w"
  "nextTimerId (playThunder i v r w) = nextTimerId w"
  by (simp_all add: playThunder_def)

lemma playThunder_loopTimers [simp]: "loopTimers (playThunder i v r w) = loopTimers w"
  by (simp add: loopTimers_def)

lemma setLightningVal_frame [simp]:
  "stormIntensity (setLightningVal v w) = stormIntensity w"
  "isAudioPlaying (setLightningVal v w) = isAudioPlaying w"
  "audioVolume (setLightningVal v w) = audioVolume w"
  "mounted (setLightningVal v w) = mounted w"
  "lightningLoopRef (setLightningVal v w) = lightningLoopRef w"
  "thunderPool (setLightningVal v w) = thunderPool w"
  "isInitialized (setLightningVal v w) = isInitialized w"
  "globalVolumeScalar (setLightningVal v w) = globalVolumeScalar w"
  "rng (setLightningVal v w) = rng w"
  "calls (setLightningVal v w) = calls w @ [SetLightningVal v]"
  "timers (setLightningVal v w) = timers w"
  "now (setLightningVal v w) = now w"
  "rngPos (setLightningVal v w) = rngPos w"
  "nextTimerId (setLightningVal v w) = nextTimerId w"
  by (simp_all add: setLightningVal_def)

lemma setLightningVal_loopTimers [simp]: "loopTimers (setLightningVal v w) = loopTimers w"
  by (simp add: loopTimers_def)

lemma initAudio_frame [simp]:
  "stormIntensity (initAudio w) = stormIntensity w"
  "isAudioPlaying (initAudio w) = isAudioPlaying w"
  "audioVolume (initAudio w) = audioVolume w"
  "mounted (initAudio w) = mounted w"
  "lightningLoopRef (initAudio w) = lightningLoopRef w"
  "globalVolumeScalar (initAudio w) = globalVolumeScalar w"
  "rng (initAudio w) = rng w"
  "calls (initAudio w) = calls w"
  "timers (initAudio w) = timers w"
  "now (initAudio w) = now w"
  "rngPos (initAudio w) = rngPos w"
  "nextTimerId (initAudio w) = nextTimerId w"
  "isInitialized (initAudio w) = True"
  by (simp_all add: initAudio_def)

lemma setGlobalVolume_frame [simp]:
  "stormIntensity (setGlobalVolume v w) = stormIntensity w"
  "isAudioPlaying (setGlobalVolume v w) = isAudioPlaying w"
  "audioVolume (setGlobalVolume v w) = audioVolume w"
  "mounted (setGlobalVolume v w) = mounted w"
  "lightningLoopRef (setGlobalVolume v w) = lightningLoopRef w"
  "thunderPool (setGlobalVolume v w) = thunderPool w"
  "isInitialized (setGlobalVolume v w) = isInitialized w"
  "globalVolumeScalar (setGlobalVolume v w) = max 0 (min 1 v)"
  "rng (setGlobalVolume v w) = rng w"
  "calls (setGlobalVolume v w) = calls w"
  "timers (setGlobalVolume v w) = timers w"
  "now (setGlobalVolume v w) = now w"
  "rngPos (setGlobalVolume v w) = rngPos w"
  "nextTimerId (setGlobalVolume v w) = nextTimerId w"
  by (simp_all add: setGlobalVolume_def Let_def)

lemma audioEffect_frame [simp]:
  "stormIntensity (audioEffect w) = stormIntensity w"
  "isAudioPlaying (audioEffect w) = isAudioPlaying w"
  "audioVolume (audioEffect w) = audioVolume w"
  "mounted (audioEffect w) = mounted w"
  "lightningLoopRef (audioEffect w) = lightningLoopRef w"
  "rng (audioEffect w) = rng w"
  "calls (audioEffect w) = calls w"
  "timers (audioEffect w) = timers w"
  "now (audioEffect w) = now w"
  "rngPos (audioEffect w) = rngPos w"
  "nextTimerId (audioEffect w) = nextTimerId w"
  by (simp_all add: audioEffect_def)

lemma audioEffect_loopTimers [simp]: "loopTimers (audioEffect w) = loopTimers w"
  by (simp add: loopTimers_def)

lemma lightningCleanup_frame [simp]:
  "stormIntensity (lightningCleanup w) = stormIntensity w"
  "isAudioPlaying (lightningCleanup w) = isAudioPlaying w"
  "audioVolume (lightningCleanup w) = audioVolume w"
  "mounted (lightningCleanup w) = mounted w"
  "lightningLoopRef (lightningCleanup w) = lightningLoopRef w"
  "thunderPool (lightningCleanup w) = thunderPool w"
  "isInitialized (lightningCleanup w) = isInitialized w"
  "globalVolumeScalar (lightningCleanup w) = globalVolumeScalar w"
  "rng (lightningCleanup w) = rng w"
  "calls (lightningCleanup w) = calls w"
  "now (lightningCleanup w) = now w"
  "rngPos (lightningCleanup w) = rngPos w"
  "nextTimerId (lightningCleanup w) = nextTimerId w"
  by (simp_all add: lightningCleanup_def clearTimeout_def split: option.splits)

lemma lightningEffect_frame [simp]:
  "stormIntensity (lightningEffect w) = stormIntensity w"
  "isAudioPlaying (lightningEffect w) = isAudioPlaying w"
  "audioVolume (lightningEffect w) = audioVolume w"
  "mounted (lightningEffect w) = mounted w"
  "thunderPool (lightningEffect w) = thunderPool w"
  "isInitialized (lightningEffect w) = isInitialized w"
  "globalVolumeScalar (lightningEffect w) = globalVolumeScalar w"
  "rng (lightningEffect w) = rng w"
  "calls (lightningEffect w) = calls w"
  "now (lightningEffect w) = now w"
  by (simp_all add: lightningEffect_def clearTimeout_def Let_def split: option.splits)

subsection \<open>The invariant of the audio service\<close>

lemma earliest_mem: "earliest ts = Some t \<Longrightarrow> t \<in> set ts"
  by (induction ts arbitrary: t) (auto split: option.splits if_splits)

lemma audioInv_cong:
  assumes "isInitialized w' = isInitialized w" "length (thunderPool w') = length (thunderPool w)"
    "globalVolumeScalar w' = globalVolumeScalar w"
  shows "audioInv w' = audioInv w"
  using assms by (simp add: audioInv_def flip: length_0_conv)

lemma audioInv_initAudio: "audioInv w \<Longrightarrow> audioInv (initAudio w)"
  by (simp add: audioInv_def initAudio_def makeThunderPool_def)

lemma audioInv_setGlobalVolume: "audioInv w \<Longrightarrow> audioInv (setGlobalVolume v w)"
  by (simp add: audioInv_def)

lemma audioInv_audioEffect: "audioInv w \<Longrightarrow> audioInv (audioEffect w)"
  by (simp add: audioEffect_def audioInv_initAudio audioInv_setGlobalVolume)

lemma audioInv_runCallback: "audioInv (runCallback c w) = audioInv w"
  by (cases c) (rule audioInv_cong; simp)+

lemma step_audioInv:
  assumes "audioInv w" "step e w = Some w'"
  shows "audioInv w'"
proof (cases e)
  case Mount
  have "audioInv (w\<lparr>mounted := True\<rparr>)" using assms(1) by (simp add: audioInv_def)
  then have "audioInv (audioEffect (w\<lparr>mounted := True\<rparr>))" by (rule audioInv_audioEffect)
  moreover have "audioInv (lightningEffect (audioEffect (w\<lparr>mounted := True\<rparr>)))
      = audioInv (audioEffect (w\<lparr>mounted := True\<rparr>))"
    by (rule audioInv_cong) simp_all
  ultimately have "audioInv (lightningEffect (audioEffect (w\<lparr>mounted := True\<rparr>)))" by simp
  then show ?thesis using assms(2) Mount by (simp split: if_splits)
next
  case (SetStormIntensity v)
  have "audioInv (lightningEffect (lightningCleanup (w\<lparr>stormIntensity := v\<rparr>))) = audioInv w"
    by (rule audioInv_cong) simp_all
  then show ?thesis using assms SetStormIntensity by (auto split: if_splits)
next
  case (SetAudioPlaying b)
  have "audioInv (lightningCleanup (w\<lparr>isAudioPlaying := b\<rparr>)) = audioInv w"
    by (rule audioInv_cong) simp_all
  then have "audioInv (audioEffect (lightningCleanup (w\<lparr>isAudioPlaying := b\<rparr>)))"
    using assms(1) by (simp add: audioInv_audioEffect)
  moreover have "audioInv (lightningEffect (audioEffect (lightningCleanup (w\<lparr>isAudioPlaying := b\<rparr>))))
      = audioInv (audioEffect (lightningCleanup (w\<lparr>isAudioPlaying := b\<rparr>)))"
    by (rule audioInv_cong) simp_all
  ultimately have "audioInv (lightningEffect (audioEffect (lightningCleanup (w\<lparr>isAudioPlaying := b\<rparr>))))"
    by simp
  then show ?thesis using assms SetAudioPlaying by (auto split: if_splits)
next
  case (SetAudioVolume v)
  have "audioInv (w\<lparr>audioVolume := v\<rparr>)" using assms(1) by (simp add: audioInv_def)
  then have "audioInv (audioEffect (w\<lparr>audioVolume := v\<rparr>))" by (rule audioInv_audioEffect)
  then show ?thesis using assms SetAudioVolume by (auto split: if_splits)
next
  case TimerFires
  then obtain t where t: "earliest (timers w) = Some t"
    and w': "w' = runCallback (cb t) (w\<lparr>now := max (now w) (due t),
                     timers := filter (\<lambda>x. tid x \<noteq> tid t) (timers w)\<rparr>)"
    using assms(2) by (auto split: option.splits)
  have "audioInv (w\<lparr>now := max (now w) (due t),
                     timers := filter (\<lambda>x. tid x \<noteq> tid t) (timers w)\<rparr>)"
    using assms(1) by (simp add: audioInv_def)
  then show ?thesis unfolding w' by (simp add: audioInv_runCallback)
next
  case (TimePasses dt)
  then show ?thesis using assms by (auto simp: audioInv_def split: if_splits)
next
  case (ThunderEnds i)
  then show ?thesis using assms by (auto simp: audioInv_def split: if_splits)
qed

lemma run_audioInv: "audioInv w \<Longrightarrow> run es w = Some w' \<Longrightarrow> audioInv w'"
proof (induction es arbitrary: w)
  case Nil
  then show ?case by simp
next
  case (Cons e es)
  then obtain w1 where s: "step e w = Some w1" and r: "run es w1 = Some w'"
    by (auto split: option.splits)
  have "audioInv w1" using Cons.prems(1) s by (rule step_audioInv)
  then show ?case using r by (rule Cons.IH)
qed

lemma audioInv_initial: "audioInv (initialWorld g)"
  by (simp add: audioInv_def initialWorld_def)

lemma runCallback_rng: "rng (runCallback c w) = rng w"
  by (cases c) simp_all

lemma step_rng: "step e w = Some w' \<Longrightarrow> rng w' = rng w"
  by (cases e) (auto simp: runCallback_rng split: if_splits option.splits)

lemma run_rng: "run es w = Some w' \<Longrightarrow> rng w' = rng w"
proof (induction es arbitrary: w)
  case Nil
  then show ?case by simp
next
  case (Cons e es)
  then obtain w1 where s: "step e w = Some w1" and r: "run es w1 = Some w'"
    by (auto split: option.splits)
  show ?case using Cons.IH [OF r] step_rng [OF s] by simp
qed

lemma firstPaused_Some:
  "firstPaused xs = Some i \<Longrightarrow> i < length xs \<and> paused (xs ! i) \<and> (\<forall>j<i. \<not> paused (xs ! j))"
proof (induction xs arbitrary: i)
  case Nil
  then show ?case by simp
next
  case (Cons a xs)
  show ?case
  proof (cases "paused a")
    case True
    then show ?thesis using Cons.prems by simp
  next
    case False
    then obtain k where k: "firstPaused xs = Some k" and i: "i = Suc k"
      using Cons.prems by auto
    have "k < length xs \<and> paused (xs ! k) \<and> (\<forall>j<k. \<not> paused (xs ! j))"
      using k by (rule Cons.IH)
    then show ?thesis using False i by (auto simp: less_Suc_eq_0_disj)
  qed
qed

lemma firstPaused_None: "firstPaused xs = None \<Longrightarrow> \<forall>i<length xs. \<not> paused (xs ! i)"
proof (induction xs)
  case Nil
  then show ?case by simp
next
  case (Cons a xs)
  then show ?case by (auto simp: less_Suc_eq_0_disj split: if_splits)
qed

lemma freeNode_first:
  assumes "0 < length xs"
  shows "freeNode xs < length xs"
    and "(\<exists>i<length xs. paused (xs ! i)) \<longrightarrow>
           paused (xs ! freeNode xs) \<and> (\<forall>j<freeNode xs. \<not> paused (xs ! j))"
    and "(\<forall>i<length xs. \<not> paused (xs ! i)) \<longrightarrow> freeNode xs = 0"
proof -
  show "freeNode xs < length xs"
    using assms firstPaused_Some [of xs] by (auto simp: freeNode_def split: option.splits)
  show "(\<exists>i<length xs. paused (xs ! i)) \<longrightarrow>
           paused (xs ! freeNode xs) \<and> (\<forall>j<freeNode xs. \<not> paused (xs ! j))"
    using firstPaused_Some [of xs] firstPaused_None [of xs]
    by (auto simp: freeNode_def split: option.splits)
  show "(\<forall>i<length xs. \<not> paused (xs ! i)) \<longrightarrow> freeNode xs = 0"
    using firstPaused_Some [of xs] by (auto simp: freeNode_def split: option.splits)
qed

lemma eventVolume_range:
  fixes d g :: real
  assumes "0 \<le> d" "d \<le> 1" "0 \<le> g" "g \<le> 1"
  shows "0 \<le> max 0.1 ((1 - d) * 0.8) * g \<and> max 0.1 ((1 - d) * 0.8) * g \<le> 1"
proof -
  have m: "0 \<le> max 0.1 ((1 - d) * 0.8)" "max 0.1 ((1 - d) * 0.8) \<le> 1"
    using assms by (simp_all add: max_def)
  show ?thesis using m assms by (simp add: mult_le_one)
qed

lemma step_Mount: "step Mount (initialWorld g) = Some (mountedWorld g)"
  by (simp add: mountedWorld_def initialWorld_def)

lemma run_Mount: "run [Mount] (initialWorld g) = Some (mountedWorld g)"
  by (simp only: run.simps step_Mount option.case)

lemma mountedWorld_audio:
  "isInitialized (mountedWorld g)" "globalVolumeScalar (mountedWorld g) = 1"
  "rng (mountedWorld g) = g" "rngPos (mountedWorld g) = 0"
  "timers (mountedWorld g) = []" "now (mountedWorld g) = 0" "nextTimerId (mountedWorld g) = 1"
  "mounted (mountedWorld g)" "audioVolume (mountedWorld g) = 1"
  by (simp_all add: mountedWorld_def audioEffect_def lightningEffect_def initialWorld_def)

lemma mountedWorld_pool: "paused (thunderPool (mountedWorld g) ! 0)"
  by (simp add: mountedWorld_def audioEffect_def initAudio_def initialWorld_def
        makeThunderPool_def THUNDER_POOL_SIZE_def newAudio_def)

subsection \<open>The invariant of the loop timer\<close>

lemma loopTimers_clearTimeout:
  "loopTimers (clearTimeout h w) = filter (\<lambda>t. tid t \<noteq> h) (loopTimers w)"
  by (simp add: loopTimers_def clearTimeout_def filter_filter conj_commute)

lemma lightningCleanup_loopTimers: "refInv w \<Longrightarrow> loopTimers (lightningCleanup w) = []"
proof (cases "lightningLoopRef w")
  case None
  assume "refInv w"
  then have "loopTimers w = []"
    using None by (cases "loopTimers w") (simp_all add: refInv_def)
  then show ?thesis using None by (simp add: lightningCleanup_def)
next
  case (Some h)
  assume "refInv w"
  then have "\<forall>t\<in>set (loopTimers w). tid t = h"
    using Some by (simp add: refInv_def list_all_iff)
  then have "filter (\<lambda>t. tid t \<noteq> h) (loopTimers w) = []"
    by (simp add: filter_empty_conv)
  then show ?thesis using Some by (simp add: lightningCleanup_def loopTimers_clearTimeout)
qed

lemma loopInv_refInv: "loopInv w \<Longrightarrow> refInv w"
  by (simp add: loopInv_def refInv_def list_all_iff)

lemma loopInv_empty: "loopTimers w = [] \<Longrightarrow> loopInv w"
  by (simp add: loopInv_def)

lemma scheduleLightning_loopTimers:
  "loopTimers (scheduleLightning s a w) =
     (if s \<le> 0.01 then loopTimers w
      else loopTimers w @
        [\<lparr>tid = nextTimerId w, delay = 5000 + rng w (rngPos w) * ((1 - s) * 40000),
          due = now w + max 0 (5000 + rng w (rngPos w) * ((1 - s) * 40000)),
          cb = LightningLoop s a\<rparr>])"
  by (simp add: scheduleLightning_def ops_defs Let_def split_def loopTimers_def)

lemma scheduleLightning_timers:
  "timers (scheduleLightning s a w) =
     (if s \<le> 0.01 then timers w
      else timers w @
        [\<lparr>tid = nextTimerId w, delay = 5000 + rng w (rngPos w) * ((1 - s) * 40000),
          due = now w + max 0 (5000 + rng w (rngPos w) * ((1 - s) * 40000)),
          cb = LightningLoop s a\<rparr>])"
  by (simp add: scheduleLightning_def ops_defs Let_def split_def)

lemma scheduleLightning_ref:
  "lightningLoopRef (scheduleLightning s a w) =
     (if s \<le> 0.01 then lightningLoopRef w else Some (nextTimerId w))"
  by (simp add: scheduleLightning_def ops_defs Let_def split_def)

lemma loopInv_scheduleLightning:
  assumes "loopTimers w = []" "s = stormIntensity w" "a = isAudioPlaying w"
  shows "loopInv (scheduleLightning s a w)"
  using assms
  by (simp add: loopInv_def scheduleLightning_loopTimers scheduleLightning_ref)

lemma clearTimeout_frame [simp]:
  "stormIntensity (clearTimeout h w) = stormIntensity w"
  "isAudioPlaying (clearTimeout h w) = isAudioPlaying w"
  "lightningLoopRef (clearTimeout h w) = lightningLoopRef w"
  by (simp_all add: clearTimeout_def)

lemma lightningEffect_as_schedule:
  "lightningEffect w =
     scheduleLightning (if stormIntensity w > 0 then stormIntensity w else 0)
        (isAudioPlaying w) (lightningCleanup w)"
proof (cases "stormIntensity w > 0")
  case True
  then show ?thesis
    by (simp add: lightningEffect_def lightningCleanup_def Let_def split: option.splits)
next
  case False
  have "scheduleLightning 0 (isAudioPlaying w) (lightningCleanup w) = lightningCleanup w"
    by (simp add: scheduleLightning_def)
  then show ?thesis
    using False by (simp add: lightningEffect_def lightningCleanup_def Let_def split: option.splits)
qed

lemma loopInv_lightningEffect:
  assumes "loopTimers (lightningCleanup w) = []"
  shows "loopInv (lightningEffect w)"
proof (cases "stormIntensity w > 0")
  case True
  show ?thesis
    unfolding lightningEffect_as_schedule using True assms
    by (simp add: loopInv_scheduleLightning)
next
  case False
  then have "lightningEffect w = lightningCleanup w"
    by (simp add: lightningEffect_as_schedule scheduleLightning_def)
  then show ?thesis using assms by (simp add: loopInv_empty)
qed

lemma lightningCleanup_idem: "lightningCleanup (lightningCleanup w) = lightningCleanup w"
  by (simp add: lightningCleanup_def clearTimeout_def split: option.splits)

lemma refInv_upd [simp]:
  "refInv (w\<lparr>stormIntensity := v\<rparr>) = refInv w"
  "refInv (w\<lparr>isAudioPlaying := b\<rparr>) = refInv w"
  "refInv (w\<lparr>mounted := m\<rparr>) = refInv w"
  by (simp_all add: refInv_def loopTimers_def)

lemma refInv_audioEffect [simp]: "refInv (audioEffect w) = refInv w"
  by (simp add: refInv_def)

lemma loopTimers_lightningCleanup_audioEffect:
  "loopTimers (lightningCleanup (audioEffect w)) = loopTimers (lightningCleanup w)"
  by (simp add: lightningCleanup_def loopTimers_clearTimeout split: option.splits)

lemma loopInv_runCallback:
  assumes "loopInv w" "t \<in> set (timers w)"
  shows "loopInv (runCallback (cb t)
            (w\<lparr>now := n, timers := filter (\<lambda>x. tid x \<noteq> tid t) (timers w)\<rparr>))"
proof -
  let ?w0 = "w\<lparr>now := n, timers := filter (\<lambda>x. tid x \<noteq> tid t) (timers w)\<rparr>"
  have l0: "loopTimers ?w0 = filter (\<lambda>x. tid x \<noteq> tid t) (loopTimers w)"
    by (simp add: loopTimers_def filter_filter conj_commute)
  have inv0: "loopInv ?w0"
    using assms(1) by (auto simp: loopInv_def l0 list_all_iff)
  show ?thesis
  proof (cases "cb t")
    case (LightningLoop s a)
    have "t \<in> set (loopTimers w)" using assms(2) LightningLoop by (simp add: loopTimers_def)
    then have r: "lightningLoopRef w = Some (tid t)" and s: "s = stormIntensity w"
      and a: "a = isAudioPlaying w"
      using assms(1) LightningLoop by (auto simp: loopInv_def list_all_iff)
    have "\<forall>x\<in>set (loopTimers w). tid x = tid t"
      using assms(1) r by (auto simp: loopInv_def list_all_iff)
    then have e: "loopTimers ?w0 = []" unfolding l0 by (simp add: filter_empty_conv)
    have "loopInv (scheduleLightning s a (triggerLightningEvent s a ?w0))"
      by (rule loopInv_scheduleLightning) (simp_all add: e s a)
    then show ?thesis using LightningLoop by simp
  next
    case FlashOff
    then show ?thesis using inv0 by (simp add: loopInv_def)
  next
    case (DoFlash b)
    then show ?thesis using inv0 by (simp add: loopInv_def)
  next
    case (ThunderPlay i v r)
    then show ?thesis using inv0 by (simp add: loopInv_def)
  qed
qed

lemma step_loopInv:
  assumes "loopInv w" "step e w = Some w'"
  shows "loopInv w'"
proof (cases e)
  case Mount
  have "loopTimers (lightningCleanup (audioEffect (w\<lparr>mounted := True\<rparr>))) = []"
    unfolding loopTimers_lightningCleanup_audioEffect
    using assms(1) by (intro lightningCleanup_loopTimers) (simp add: loopInv_refInv)
  then have "loopInv (lightningEffect (audioEffect (w\<lparr>mounted := True\<rparr>)))"
    by (rule loopInv_lightningEffect)
  then show ?thesis using assms(2) Mount by (simp split: if_splits)
next
  case (SetStormIntensity v)
  have "loopTimers (lightningCleanup (lightningCleanup (w\<lparr>stormIntensity := v\<rparr>))) = []"
    unfolding lightningCleanup_idem
    using assms(1) by (intro lightningCleanup_loopTimers) (simp add: loopInv_refInv)
  then have "loopInv (lightningEffect (lightningCleanup (w\<lparr>stormIntensity := v\<rparr>)))"
    by (rule loopInv_lightningEffect)
  then show ?thesis using assms SetStormIntensity by (auto split: if_splits)
next
  case (SetAudioPlaying b)
  have "loopTimers (lightningCleanup (audioEffect (lightningCleanup (w\<lparr>isAudioPlaying := b\<rparr>)))) = []"
    unfolding loopTimers_lightningCleanup_audioEffect lightningCleanup_idem
    using assms(1) by (intro lightningCleanup_loopTimers) (simp add: loopInv_refInv)
  then have "loopInv (lightningEffect (audioEffect (lightningCleanup (w\<lparr>isAudioPlaying := b\<rparr>))))"
    by (rule loopInv_lightningEffect)
  then show ?thesis using assms SetAudioPlaying by (auto split: if_splits)
next
  case (SetAudioVolume v)
  have "loopInv (audioEffect (w\<lparr>audioVolume := v\<rparr>)) = loopInv (w\<lparr>audioVolume := v\<rparr>)"
    by (simp add: loopInv_def)
  moreover have "loopInv (w\<lparr>audioVolume := v\<rparr>) = loopInv w"
    by (simp add: loopInv_def loopTimers_def)
  ultimately show ?thesis using assms SetAudioVolume by (auto split: if_splits)
next
  case TimerFires
  then obtain t where t: "earliest (timers w) = Some t"
    and w': "w' = runCallback (cb t) (w\<lparr>now := max (now w) (due t),
                     timers := filter (\<lambda>x. tid x \<noteq> tid t) (timers w)\<rparr>)"
    using assms(2) by (auto split: option.splits)
  have "t \<in> set (timers w)" using t by (rule earliest_mem)
  then show ?thesis unfolding w' using assms(1) by (intro loopInv_runCallback)
next
  case (TimePasses dt)
  then show ?thesis using assms by (auto simp: loopInv_def loopTimers_def split: if_splits)
next
  case (ThunderEnds i)
  then show ?thesis using assms by (auto simp: loopInv_def loopTimers_def split: if_splits)
qed

lemma run_loopInv: "loopInv w \<Longrightarrow> run es w = Some w' \<Longrightarrow> loopInv w'"
proof (induction es arbitrary: w)
  case Nil
  then show ?case by simp
next
  case (Cons e es)
  then obtain w1 where s: "step e w = Some w1" and r: "run es w1 = Some w'"
    by (auto split: option.splits)
  have "loopInv w1" using Cons.prems(1) s by (rule step_loopInv)
  then show ?case using r by (rule Cons.IH)
qed

lemma loopInv_initial: "loopInv (initialWorld g)"
  by (simp add: loopInv_def loopTimers_def initialWorld_def)

subsection \<open>The invariant of the timer handles\<close>

lemma idInv_filter:
  "idInv w \<Longrightarrow> idInv (w\<lparr>now := n, timers := filter P (timers w)\<rparr>)"
  by (auto simp: idInv_def list_all_iff split: option.splits)

lemma idInv_clearTimeout: "idInv w \<Longrightarrow> idInv (clearTimeout h w)"
  by (auto simp: idInv_def clearTimeout_def list_all_iff split: option.splits)

lemma idInv_lightningCleanup: "idInv w \<Longrightarrow> idInv (lightningCleanup w)"
  by (simp add: lightningCleanup_def idInv_clearTimeout split: option.splits)

lemma idInv_upd [simp]:
  "idInv (w\<lparr>stormIntensity := v\<rparr>) = idInv w"
  "idInv (w\<lparr>isAudioPlaying := b\<rparr>) = idInv w"
  "idInv (w\<lparr>audioVolume := v\<rparr>) = idInv w"
  "idInv (w\<lparr>mounted := m\<rparr>) = idInv w"
  "idInv (w\<lparr>now := n\<rparr>) = idInv w"
  "idInv (w\<lparr>thunderPool := p\<rparr>) = idInv w"
  "idInv (w\<lparr>calls := c\<rparr>) = idInv w"
  "idInv (w\<lparr>rngPos := k\<rparr>) = idInv w"
  by (simp_all add: idInv_def split: option.splits)

lemma idInv_audioEffect [simp]: "idInv (audioEffect w) = idInv w"
  by (simp add: idInv_def split: option.splits)

lemma idInv_setTimeout:
  "idInv w \<Longrightarrow> \<not> isLoop c \<Longrightarrow> idInv (snd (setTimeout c d w))"
  by (auto simp: idInv_def setTimeout_def list_all_iff split: option.splits)

lemma idInv_setLightningVal [simp]: "idInv (setLightningVal v w) = idInv w"
  by (simp add: idInv_def split: option.splits)

lemma idInv_playThunder [simp]: "idInv (playThunder i v r w) = idInv w"
  by (simp add: idInv_def split: option.splits)

lemma idInv_doFlash: "idInv w \<Longrightarrow> idInv (doFlash b w)"
  by (simp add: doFlash_def Let_def split_def Math_random_def idInv_setTimeout)

lemma idInv_triggerThunder: "idInv w \<Longrightarrow> idInv (triggerThunder d w)"
  by (simp add: triggerThunder_def Let_def split_def Math_random_def idInv_setTimeout)

lemma idInv_triggerLightningEvent: "idInv w \<Longrightarrow> idInv (triggerLightningEvent s a w)"
  by (simp add: triggerLightningEvent_def Let_def split_def Math_random_def idInv_setTimeout
        idInv_doFlash idInv_triggerThunder)

lemma idInv_scheduleLightning: "idInv w \<Longrightarrow> idInv (scheduleLightning s a w)"
  by (auto simp: scheduleLightning_def Let_def split_def Math_random_def setTimeout_def
        idInv_def list_all_iff split: option.splits)

lemma idInv_lightningEffect: "idInv w \<Longrightarrow> idInv (lightningEffect w)"
  unfolding lightningEffect_as_schedule
  by (intro idInv_scheduleLightning idInv_lightningCleanup)

lemma idInv_runCallback: "idInv w \<Longrightarrow> idInv (runCallback c w)"
  by (cases c) (simp_all add: idInv_scheduleLightning idInv_triggerLightningEvent idInv_doFlash)

lemma step_idInv:
  assumes "idInv w" "step e w = Some w'"
  shows "idInv w'"
proof (cases e)
  case Mount
  have "idInv (lightningEffect (audioEffect (w\<lparr>mounted := True\<rparr>)))"
    using assms(1) by (intro idInv_lightningEffect) simp
  then show ?thesis using assms(2) Mount by (simp split: if_splits)
next
  case (SetStormIntensity v)
  have "idInv (lightningEffect (lightningCleanup (w\<lparr>stormIntensity := v\<rparr>)))"
    using assms(1) by (intro idInv_lightningEffect idInv_lightningCleanup) simp
  then show ?thesis using assms SetStormIntensity by (auto split: if_splits)
next
  case (SetAudioPlaying b)
  have "idInv (lightningCleanup (w\<lparr>isAudioPlaying := b\<rparr>))"
    using assms(1) by (intro idInv_lightningCleanup) simp
  then have "idInv (lightningEffect (audioEffect (lightningCleanup (w\<lparr>isAudioPlaying := b\<rparr>))))"
    by (intro idInv_lightningEffect) simp
  then show ?thesis using assms SetAudioPlaying by (auto split: if_splits)
next
  case (SetAudioVolume v)
  then show ?thesis using assms by (auto split: if_splits)
next
  case TimerFires
  then obtain t where t: "earliest (timers w) = Some t"
    and w': "w' = runCallback (cb t) (w\<lparr>now := max (now w) (due t),
                     timers := filter (\<lambda>x. tid x \<noteq> tid t) (timers w)\<rparr>)"
    using assms(2) by (auto split: option.splits)
  show ?thesis unfolding w' using assms(1) by (intro idInv_runCallback idInv_filter)
next
  case (TimePasses dt)
  then show ?thesis using assms by (auto split: if_splits)
next
  case (ThunderEnds i)
  then show ?thesis using assms by (auto split: if_splits)
qed

lemma run_idInv: "idInv w \<Longrightarrow> run es w = Some w' \<Longrightarrow> idInv w'"
proof (induction es arbitrary: w)
  case Nil
  then show ?case by simp
next
  case (Cons e es)
  then obtain w1 where s: "step e w = Some w1" and r: "run es w1 = Some w'"
    by (auto split: option.splits)
  have "idInv w1" using Cons.prems(1) s by (rule step_idInv)
  then show ?case using r by (rule Cons.IH)
qed

lemma idInv_initial: "idInv (initialWorld g)"
  by (simp add: idInv_def initialWorld_def)

lemma lightningCleanup_exact:
  assumes "refInv w" "idInv w"
  shows "timers (lightningCleanup w) = filter (\<lambda>t. \<not> isLoop (cb t)) (timers w)"
proof (cases "lightningLoopRef w")
  case None
  have "loopTimers w = []"
    using assms(1) None by (cases "loopTimers w") (simp_all add: refInv_def)
  then have "filter (\<lambda>t. \<not> isLoop (cb t)) (timers w) = timers w"
    by (simp add: loopTimers_def filter_empty_conv)
  then show ?thesis using None by (simp add: lightningCleanup_def)
next
  case (Some h)
  have "\<forall>t\<in>set (timers w). (tid t \<noteq> h) = (\<not> isLoop (cb t))"
  proof
    fix t assume t: "t \<in> set (timers w)"
    show "(tid t \<noteq> h) = (\<not> isLoop (cb t))"
    proof (cases "isLoop (cb t)")
      case True
      then have "t \<in> set (loopTimers w)" using t by (simp add: loopTimers_def)
      then show ?thesis using assms(1) Some True by (auto simp: refInv_def list_all_iff)
    next
      case False
      then show ?thesis using assms(2) Some t by (auto simp: idInv_def list_all_iff)
    qed
  qed
  then have "filter (\<lambda>t. tid t \<noteq> h) (timers w) = filter (\<lambda>t. \<not> isLoop (cb t)) (timers w)"
    by (intro filter_cong) simp_all
  then show ?thesis using Some by (simp add: lightningCleanup_def clearTimeout_def)
qed

subsection \<open>The idle scheduler\<close>

lemma scheduleLightning_idle: "s \<le> 0 \<Longrightarrow> scheduleLightning s a w = w"
  by (simp add: scheduleLightning_def)

lemma lightningEffect_idle: "stormIntensity w \<le> 0 \<Longrightarrow> lightningEffect w = lightningCleanup w"
  by (simp add: lightningEffect_as_schedule scheduleLightning_idle)

lemma lightningCleanup_loopTimers_empty:
  "loopTimers w = [] \<Longrightarrow> loopTimers (lightningCleanup w) = []"
  by (simp add: lightningCleanup_def loopTimers_clearTimeout split: option.splits)

lemma filter_filter_le: "length (filter Q (filter P ts)) \<le> length (filter Q ts)"
proof -
  have "filter Q (filter P ts) = filter P (filter Q ts)"
    by (induction ts) simp_all
  then show ?thesis by (simp only: length_filter_le)
qed

lemma filter_filter_less:
  assumes "t \<in> set ts" "Q t" "\<not> P t"
  shows "length (filter Q (filter P ts)) + 1 \<le> length (filter Q ts)"
proof -
  have c: "filter Q (filter P ts) = filter P (filter Q ts)"
    by (induction ts) simp_all
  have "t \<in> set (filter Q ts)" using assms(1,2) by simp
  then have "length (filter P (filter Q ts)) < length (filter Q ts)"
    using assms(3) by (rule length_filter_less)
  then show ?thesis unfolding c by simp
qed

lemma pendingCount_upd [simp]:
  "pendingCount Q (w\<lparr>stormIntensity := v\<rparr>) = pendingCount Q w"
  "pendingCount Q (w\<lparr>isAudioPlaying := b\<rparr>) = pendingCount Q w"
  "pendingCount Q (w\<lparr>audioVolume := v\<rparr>) = pendingCount Q w"
  "pendingCount Q (w\<lparr>mounted := m\<rparr>) = pendingCount Q w"
  "pendingCount Q (w\<lparr>now := n\<rparr>) = pendingCount Q w"
  "pendingCount Q (w\<lparr>thunderPool := p\<rparr>) = pendingCount Q w"
  "pendingCount Q (audioEffect w) = pendingCount Q w"
  "pendingCount Q (setLightningVal x w) = pendingCount Q w"
  "pendingCount Q (playThunder i x r w) = pendingCount Q w"
  by (simp_all add: pendingCount_def)

lemma pendingCount_doFlash:
  "pendingCount Q (doFlash b w) = pendingCount Q w + (if Q FlashOff then 1 else 0)"
  by (simp add: pendingCount_def doFlash_timers)

lemma pendingCount_filter:
  "pendingCount Q (w\<lparr>now := n, timers := filter P (timers w)\<rparr>) \<le> pendingCount Q w"
  by (simp add: pendingCount_def filter_filter_le del: filter_filter)

lemma pendingCount_fired:
  assumes "t \<in> set (timers w)" "Q (cb t)"
  shows "pendingCount Q (w\<lparr>now := n, timers := filter (\<lambda>x. tid x \<noteq> tid t) (timers w)\<rparr>) + 1
     \<le> pendingCount Q w"
proof -
  have "length (filter (\<lambda>x. Q (cb x)) (filter (\<lambda>x. tid x \<noteq> tid t) (timers w))) + 1
      \<le> length (filter (\<lambda>x. Q (cb x)) (timers w))"
    using assms(1) by (rule filter_filter_less) (simp_all add: assms(2))
  then show ?thesis by (simp add: pendingCount_def del: filter_filter)
qed

lemma pendingCount_lightningCleanup:
  "pendingCount Q (lightningCleanup w) \<le> pendingCount Q w"
  by (simp add: pendingCount_def lightningCleanup_def clearTimeout_def filter_filter_le
        del: filter_filter split: option.splits)

lemma playingCount_upd [simp]:
  "playingCount (w\<lparr>stormIntensity := v\<rparr>) = playingCount w"
  "playingCount (w\<lparr>isAudioPlaying := b\<rparr>) = playingCount w"
  "playingCount (w\<lparr>audioVolume := v\<rparr>) = playingCount w"
  "playingCount (w\<lparr>mounted := m\<rparr>) = playingCount w"
  "playingCount (w\<lparr>now := n\<rparr>) = playingCount w"
  "playingCount (w\<lparr>timers := ts\<rparr>) = playingCount w"
  "playingCount (setLightningVal x w) = playingCount w"
  "playingCount (doFlash x w) = playingCount w"
  "playingCount (lightningCleanup w) = playingCount w"
  by (simp_all add: playingCount_def)

lemma playingCount_audioEffect [simp]: "playingCount (audioEffect w) = playingCount w"
  by (simp add: playingCount_def audioEffect_def initAudio_def makeThunderPool_def
        newAudio_def filter_empty_conv)

lemma filter_update_le:
  "length (filter P (xs[i := x])) \<le> length (filter P xs) + 1"
proof (induction xs arbitrary: i)
  case Nil
  then show ?case by simp
next
  case (Cons a xs)
  show ?case
  proof (cases i)
    case 0
    then show ?thesis by simp
  next
    case (Suc j)
    then show ?thesis using Cons.IH [of j] by simp
  qed
qed

lemma filter_update_drop:
  "\<not> P x \<Longrightarrow> length (filter P (xs[i := x])) \<le> length (filter P xs)"
proof (induction xs arbitrary: i)
  case Nil
  then show ?case by simp
next
  case (Cons a xs)
  show ?case
  proof (cases i)
    case 0
    then show ?thesis using Cons.prems by simp
  next
    case (Suc j)
    then show ?thesis using Cons.IH [of j] Cons.prems by simp
  qed
qed

lemma playingCount_playThunder:
  "playingCount (playThunder i v r w) \<le> playingCount w + 1"
  using filter_update_le [of "\<lambda>a. \<not> paused a" "thunderPool w" i]
  by (simp add: playingCount_def playThunder_def)

lemma playingCount_ends:
  "playingCount (w\<lparr>thunderPool := (thunderPool w)[i := (thunderPool w ! i)\<lparr>paused := True\<rparr>]\<rparr>)
     \<le> playingCount w"
  using filter_update_drop [of "\<lambda>a. \<not> paused a" _ "thunderPool w" i]
  by (simp add: playingCount_def)

lemma idleSinceI:
  assumes "stormIntensity w' \<le> 0" "loopTimers w' = []" "calls w' = calls w @ new"
    "list_all (\<lambda>c. \<not> isThunderCall c) new"
    "\<And>k. isThunderPlay k \<Longrightarrow> pendingCount ((=) k) w' \<le> pendingCount ((=) k) w"
    "playingCount w' + pendingCount isThunderPlay w'
        \<le> playingCount w + pendingCount isThunderPlay w"
    "\<And>b. b \<noteq> 0 \<Longrightarrow> count_list new (SetLightningVal b)
           + pendingCount ((=) (DoFlash b)) w' \<le> pendingCount ((=) (DoFlash b)) w"
    "length new + pendingCount ((=) FlashOff) w' + 2 * pendingCount isDoFlash w'
        \<le> pendingCount ((=) FlashOff) w + 2 * pendingCount isDoFlash w"
  shows "idleSince w w'"
proof -
  have "\<forall>b. b \<noteq> 0 \<longrightarrow> count_list new (SetLightningVal b)
           + pendingCount ((=) (DoFlash b)) w' \<le> pendingCount ((=) (DoFlash b)) w"
    using assms(7) by blast
  then have "\<exists>new. calls w' = calls w @ new
           \<and> list_all (\<lambda>c. \<not> isThunderCall c) new
           \<and> (\<forall>b. b \<noteq> 0 \<longrightarrow>
                 count_list new (SetLightningVal b) + pendingCount ((=) (DoFlash b)) w'
                   \<le> pendingCount ((=) (DoFlash b)) w)
           \<and> length new + pendingCount ((=) FlashOff) w' + 2 * pendingCount isDoFlash w'
                 \<le> pendingCount ((=) FlashOff) w + 2 * pendingCount isDoFlash w"
    using assms(3,4,8) by blast
  then show ?thesis unfolding idleSince_def using assms(1,2,5,6) by blast
qed

lemma idleSince_refl: "stormIntensity w \<le> 0 \<Longrightarrow> loopTimers w = [] \<Longrightarrow> idleSince w w"
  by (rule idleSinceI [where new = "[]"]) simp_all

lemma idleSince_quiet:
  assumes "stormIntensity w' \<le> 0" "loopTimers w' = []" "calls w' = calls w"
    "\<And>Q. pendingCount Q w' \<le> pendingCount Q w" "playingCount w' \<le> playingCount w"
  shows "idleSince w w'"
proof (rule idleSinceI [where new = "[]"])
  show "length [] + pendingCount ((=) FlashOff) w' + 2 * pendingCount isDoFlash w'
      \<le> pendingCount ((=) FlashOff) w + 2 * pendingCount isDoFlash w"
    using assms(4) [of "(=) FlashOff"] assms(4) [of isDoFlash] by simp
  show "playingCount w' + pendingCount isThunderPlay w'
        \<le> playingCount w + pendingCount isThunderPlay w"
    using assms(4) [of isThunderPlay] assms(5) by simp
qed (simp_all add: assms)

lemma idleSince_trans:
  assumes "idleSince a b" "idleSince b c"
  shows "idleSince a c"
proof -
  obtain n1 where n1: "calls b = calls a @ n1" "list_all (\<lambda>c. \<not> isThunderCall c) n1"
    "\<forall>x. x \<noteq> 0 \<longrightarrow> count_list n1 (SetLightningVal x) + pendingCount ((=) (DoFlash x)) b
        \<le> pendingCount ((=) (DoFlash x)) a"
    "length n1 + pendingCount ((=) FlashOff) b + 2 * pendingCount isDoFlash b
        \<le> pendingCount ((=) FlashOff) a + 2 * pendingCount isDoFlash a"
    using assms(1) unfolding idleSince_def by blast
  obtain n2 where n2: "calls c = calls b @ n2" "list_all (\<lambda>c. \<not> isThunderCall c) n2"
    "\<forall>x. x \<noteq> 0 \<longrightarrow> count_list n2 (SetLightningVal x) + pendingCount ((=) (DoFlash x)) c
        \<le> pendingCount ((=) (DoFlash x)) b"
    "length n2 + pendingCount ((=) FlashOff) c + 2 * pendingCount isDoFlash c
        \<le> pendingCount ((=) FlashOff) b + 2 * pendingCount isDoFlash b"
    using assms(2) unfolding idleSince_def by blast
  have p1: "playingCount b + pendingCount isThunderPlay b
        \<le> playingCount a + pendingCount isThunderPlay a"
    using assms(1) unfolding idleSince_def by blast
  have p2: "playingCount c + pendingCount isThunderPlay c
        \<le> playingCount b + pendingCount isThunderPlay b"
    using assms(2) unfolding idleSince_def by blast
  have s: "stormIntensity c \<le> 0" "loopTimers c = []"
    using assms(2) unfolding idleSince_def by blast+
  show ?thesis
  proof (rule idleSinceI [where new = "n1 @ n2"])
    fix k assume k: "isThunderPlay k"
    have "pendingCount ((=) k) c \<le> pendingCount ((=) k) b"
      using assms(2) k unfolding idleSince_def by blast
    also have "\<dots> \<le> pendingCount ((=) k) a"
      using assms(1) k unfolding idleSince_def by blast
    finally show "pendingCount ((=) k) c \<le> pendingCount ((=) k) a" .
  next
    fix x :: real assume x: "x \<noteq> 0"
    have "count_list n2 (SetLightningVal x) + pendingCount ((=) (DoFlash x)) c
        \<le> pendingCount ((=) (DoFlash x)) b" using n2(3) x by blast
    moreover have "count_list n1 (SetLightningVal x) + pendingCount ((=) (DoFlash x)) b
        \<le> pendingCount ((=) (DoFlash x)) a" using n1(3) x by blast
    ultimately show "count_list (n1 @ n2) (SetLightningVal x) + pendingCount ((=) (DoFlash x)) c
        \<le> pendingCount ((=) (DoFlash x)) a" by simp
  next
    show "length (n1 @ n2) + pendingCount ((=) FlashOff) c + 2 * pendingCount isDoFlash c
        \<le> pendingCount ((=) FlashOff) a + 2 * pendingCount isDoFlash a"
      using n1(4) n2(4) by simp
    show "playingCount c + pendingCount isThunderPlay c
        \<le> playingCount a + pendingCount isThunderPlay a"
      using p1 p2 by simp
    show "calls c = calls a @ n1 @ n2" using n1(1) n2(1) by simp
    show "list_all (\<lambda>c. \<not> isThunderCall c) (n1 @ n2)" using n1(2) n2(2) by simp
  qed (rule s)+
qed

lemma idle_fire:
  assumes "stormIntensity w \<le> 0" "loopTimers w = []" "t \<in> set (timers w)"
  shows "idleSince w (runCallback (cb t)
            (w\<lparr>now := n, timers := filter (\<lambda>x. tid x \<noteq> tid t) (timers w)\<rparr>))"
proof -
  let ?w0 = "w\<lparr>now := n, timers := filter (\<lambda>x. tid x \<noteq> tid t) (timers w)\<rparr>"
  have l0: "loopTimers ?w0 = []"
    using assms(2) by (simp add: loopTimers_def filter_filter filter_empty_conv)
  have le: "\<And>Q. pendingCount Q ?w0 \<le> pendingCount Q w" by (rule pendingCount_filter)
  have lt: "\<And>Q. Q (cb t) \<Longrightarrow> pendingCount Q ?w0 + 1 \<le> pendingCount Q w"
    using assms(3) by (rule pendingCount_fired)
  have nl: "\<not> isLoop (cb t)"
    using assms(2,3) by (auto simp: loopTimers_def filter_empty_conv)
  show ?thesis
  proof (cases "cb t")
    case (LightningLoop s a)
    then show ?thesis using nl by simp
  next
    case FlashOff
    have "idleSince w (setLightningVal 0 ?w0)"
    proof (rule idleSinceI [where new = "[SetLightningVal 0]"])
      show "length [SetLightningVal 0] + pendingCount ((=) callback.FlashOff) (setLightningVal 0 ?w0)
          + 2 * pendingCount isDoFlash (setLightningVal 0 ?w0)
          \<le> pendingCount ((=) callback.FlashOff) w + 2 * pendingCount isDoFlash w"
        using lt [of "(=) callback.FlashOff"] le [of isDoFlash] FlashOff by simp
      show "\<And>b. b \<noteq> 0 \<Longrightarrow> count_list [SetLightningVal 0] (SetLightningVal b)
           + pendingCount ((=) (DoFlash b)) (setLightningVal 0 ?w0)
           \<le> pendingCount ((=) (DoFlash b)) w"
        using le by simp
      show "\<And>k. isThunderPlay k \<Longrightarrow> pendingCount ((=) k) (setLightningVal 0 ?w0)
           \<le> pendingCount ((=) k) w"
        using le by simp
      show "playingCount (setLightningVal 0 ?w0) + pendingCount isThunderPlay (setLightningVal 0 ?w0)
           \<le> playingCount w + pendingCount isThunderPlay w"
        using le [of isThunderPlay] by simp
    qed (simp_all add: assms(1) l0)
    then show ?thesis using FlashOff by simp
  next
    case (DoFlash b)
    have "idleSince w (doFlash b ?w0)"
    proof (rule idleSinceI [where new = "[SetLightningVal b]"])
      show "length [SetLightningVal b] + pendingCount ((=) FlashOff) (doFlash b ?w0)
          + 2 * pendingCount isDoFlash (doFlash b ?w0)
          \<le> pendingCount ((=) FlashOff) w + 2 * pendingCount isDoFlash w"
        using le [of "(=) FlashOff"] lt [of isDoFlash] DoFlash
        by (simp add: pendingCount_doFlash)
      show "\<And>x. x \<noteq> 0 \<Longrightarrow> count_list [SetLightningVal b] (SetLightningVal x)
           + pendingCount ((=) (DoFlash x)) (doFlash b ?w0)
           \<le> pendingCount ((=) (DoFlash x)) w"
      proof -
        fix x :: real
        show "count_list [SetLightningVal b] (SetLightningVal x)
           + pendingCount ((=) (DoFlash x)) (doFlash b ?w0)
           \<le> pendingCount ((=) (DoFlash x)) w"
        proof (cases "x = b")
          case True
          then show ?thesis
            using lt [of "(=) (DoFlash b)"] DoFlash by (simp add: pendingCount_doFlash)
        next
          case False
          then show ?thesis
            using le [of "(=) (DoFlash x)"] by (simp add: pendingCount_doFlash)
        qed
      qed
      show "\<And>k. isThunderPlay k \<Longrightarrow> pendingCount ((=) k) (doFlash b ?w0)
           \<le> pendingCount ((=) k) w"
        using le by (auto simp: pendingCount_doFlash)
      show "playingCount (doFlash b ?w0) + pendingCount isThunderPlay (doFlash b ?w0)
           \<le> playingCount w + pendingCount isThunderPlay w"
        using le [of isThunderPlay] by (simp add: pendingCount_doFlash)
    qed (simp_all add: assms(1) l0)
    then show ?thesis using DoFlash by simp
  next
    case (ThunderPlay i v r)
    have "idleSince w (playThunder i v r ?w0)"
    proof (rule idleSinceI [where new = "[]"])
      show "playingCount (playThunder i v r ?w0) + pendingCount isThunderPlay (playThunder i v r ?w0)
           \<le> playingCount w + pendingCount isThunderPlay w"
        using lt [of isThunderPlay] playingCount_playThunder [of i v r ?w0] ThunderPlay by simp
      show "length [] + pendingCount ((=) FlashOff) (playThunder i v r ?w0)
          + 2 * pendingCount isDoFlash (playThunder i v r ?w0)
          \<le> pendingCount ((=) FlashOff) w + 2 * pendingCount isDoFlash w"
        using le [of "(=) FlashOff"] le [of isDoFlash] by simp
      show "\<And>b. b \<noteq> 0 \<Longrightarrow> count_list [] (SetLightningVal b)
           + pendingCount ((=) (DoFlash b)) (playThunder i v r ?w0)
           \<le> pendingCount ((=) (DoFlash b)) w"
        using le by simp
      show "\<And>k. isThunderPlay k \<Longrightarrow> pendingCount ((=) k) (playThunder i v r ?w0)
           \<le> pendingCount ((=) k) w"
        using le by simp
    qed (simp_all add: assms(1) l0)
    then show ?thesis using ThunderPlay by simp
  qed
qed

lemma idle_step:
  assumes "stormIntensity w \<le> 0" "loopTimers w = []" "keepsIdle e" "step e w = Some w'"
  shows "idleSince w w'"
proof (cases e)
  case Mount
  have "idleSince w (lightningCleanup (audioEffect (w\<lparr>mounted := True\<rparr>)))"
  proof (rule idleSince_quiet)
    show "loopTimers (lightningCleanup (audioEffect (w\<lparr>mounted := True\<rparr>))) = []"
      using assms(2) by (intro lightningCleanup_loopTimers_empty) (simp add: loopTimers_def)
    show "\<And>Q. pendingCount Q (lightningCleanup (audioEffect (w\<lparr>mounted := True\<rparr>)))
        \<le> pendingCount Q w"
      using pendingCount_lightningCleanup [of _ "audioEffect (w\<lparr>mounted := True\<rparr>)"] by simp
  qed (simp_all add: assms(1))
  then show ?thesis
    using assms(1,4) Mount by (simp add: lightningEffect_idle split: if_splits)
next
  case (SetStormIntensity v)
  have v: "v \<le> 0" using assms(3) SetStormIntensity by simp
  have "idleSince w (lightningCleanup (lightningCleanup (w\<lparr>stormIntensity := v\<rparr>)))"
  proof (rule idleSince_quiet)
    show "loopTimers (lightningCleanup (lightningCleanup (w\<lparr>stormIntensity := v\<rparr>))) = []"
      using assms(2) unfolding lightningCleanup_idem
      by (intro lightningCleanup_loopTimers_empty) (simp add: loopTimers_def)
    show "\<And>Q. pendingCount Q (lightningCleanup (lightningCleanup (w\<lparr>stormIntensity := v\<rparr>)))
        \<le> pendingCount Q w"
      unfolding lightningCleanup_idem
      using pendingCount_lightningCleanup [of _ "w\<lparr>stormIntensity := v\<rparr>"] by simp
  qed (simp_all add: v)
  moreover have "idleSince w w" using assms(1,2) by (rule idleSince_refl)
  ultimately show ?thesis
    using assms(4) SetStormIntensity v by (auto simp: lightningEffect_idle split: if_splits)
next
  case (SetAudioPlaying b)
  have "idleSince w (lightningCleanup (audioEffect (lightningCleanup (w\<lparr>isAudioPlaying := b\<rparr>))))"
  proof (rule idleSince_quiet)
    have "loopTimers (lightningCleanup (lightningCleanup (w\<lparr>isAudioPlaying := b\<rparr>))) = []"
      using assms(2) unfolding lightningCleanup_idem
      by (intro lightningCleanup_loopTimers_empty) (simp add: loopTimers_def)
    then show "loopTimers (lightningCleanup (audioEffect (lightningCleanup (w\<lparr>isAudioPlaying := b\<rparr>)))) = []"
      by (simp only: loopTimers_lightningCleanup_audioEffect)
    show "\<And>Q. pendingCount Q (lightningCleanup (audioEffect (lightningCleanup (w\<lparr>isAudioPlaying := b\<rparr>))))
        \<le> pendingCount Q w"
    proof -
      fix Q
      have "pendingCount Q (lightningCleanup (audioEffect (lightningCleanup (w\<lparr>isAudioPlaying := b\<rparr>))))
        \<le> pendingCount Q (audioEffect (lightningCleanup (w\<lparr>isAudioPlaying := b\<rparr>)))"
        by (rule pendingCount_lightningCleanup)
      also have "\<dots> \<le> pendingCount Q w"
        using pendingCount_lightningCleanup [of Q "w\<lparr>isAudioPlaying := b\<rparr>"] by simp
      finally show "pendingCount Q (lightningCleanup (audioEffect (lightningCleanup (w\<lparr>isAudioPlaying := b\<rparr>))))
        \<le> pendingCount Q w" .
    qed
  qed (simp_all add: assms(1))
  moreover have "idleSince w w" using assms(1,2) by (rule idleSince_refl)
  ultimately show ?thesis
    using assms(1,4) SetAudioPlaying by (auto simp: lightningEffect_idle split: if_splits)
next
  case (SetAudioVolume v)
  have "idleSince w (audioEffect (w\<lparr>audioVolume := v\<rparr>))"
    by (rule idleSince_quiet)
      (simp_all add: assms(1) assms(2) [unfolded loopTimers_def] loopTimers_def [of "w\<lparr>audioVolume := v\<rparr>"])
  moreover have "idleSince w w" using assms(1,2) by (rule idleSince_refl)
  ultimately show ?thesis using assms(4) SetAudioVolume by (auto split: if_splits)
next
  case TimerFires
  then obtain t where t: "earliest (timers w) = Some t"
    and w': "w' = runCallback (cb t) (w\<lparr>now := max (now w) (due t),
                     timers := filter (\<lambda>x. tid x \<noteq> tid t) (timers w)\<rparr>)"
    using assms(4) by (auto split: option.splits)
  have "t \<in> set (timers w)" using t by (rule earliest_mem)
  then show ?thesis unfolding w' using assms(1,2) by (intro idle_fire)
next
  case (TimePasses dt)
  have "idleSince w (w\<lparr>now := now w + dt\<rparr>)"
    by (rule idleSince_quiet)
      (simp_all add: assms(1) assms(2) [unfolded loopTimers_def] loopTimers_def)
  then show ?thesis using assms(4) TimePasses by (auto split: if_splits)
next
  case (ThunderEnds i)
  have "idleSince w (w\<lparr>thunderPool := (thunderPool w)[i := (thunderPool w ! i)\<lparr>paused := True\<rparr>]\<rparr>)"
    by (rule idleSince_quiet)
      (simp_all add: assms(1) assms(2) [unfolded loopTimers_def] loopTimers_def playingCount_ends)
  then show ?thesis using assms(4) ThunderEnds by (auto split: if_splits)
qed

lemma idle_run:
  "stormIntensity w \<le> 0 \<Longrightarrow> loopTimers w = [] \<Longrightarrow> list_all keepsIdle es \<Longrightarrow>
   run es w = Some w' \<Longrightarrow> idleSince w w'"
proof (induction es arbitrary: w)
  case Nil
  then show ?case by (simp add: idleSince_refl)
next
  case (Cons e es)
  then obtain w1 where s: "step e w = Some w1" and r: "run es w1 = Some w'"
    by (auto split: option.splits)
  have k: "keepsIdle e" "list_all keepsIdle es" using Cons.prems(3) by simp_all
  have a: "idleSince w w1" using Cons.prems(1,2) k(1) s by (rule idle_step)
  then have "stormIntensity w1 \<le> 0" "loopTimers w1 = []" by (simp_all add: idleSince_def)
  then have "idleSince w1 w'" using k(2) r by (rule Cons.IH)
  with a show ?case by (rule idleSince_trans)
qed

lemma zero_step_idle:
  assumes "loopInv w" "idInv w" "step (SetStormIntensity 0) w = Some w1"
  shows "stormIntensity w1 = 0 \<and> loopTimers w1 = []
     \<and> timers w1 = filter (\<lambda>t. \<not> isLoop (cb t)) (timers w) \<and> calls w1 = calls w"
proof (cases "stormIntensity w = 0")
  case True
  then have l: "loopTimers w = []"
    using assms(1) by (cases "loopTimers w") (simp_all add: loopInv_def)
  then have "filter (\<lambda>t. \<not> isLoop (cb t)) (timers w) = timers w"
    by (simp add: loopTimers_def filter_empty_conv)
  then show ?thesis using True l assms(3) by (auto split: if_splits)
next
  case False
  then have w1: "w1 = lightningCleanup (lightningCleanup (w\<lparr>stormIntensity := 0\<rparr>))"
    using assms(3) by (auto simp: lightningEffect_idle split: if_splits)
  have r: "refInv (w\<lparr>stormIntensity := 0\<rparr>)" using assms(1) by (simp add: loopInv_refInv)
  then have "loopTimers (lightningCleanup (w\<lparr>stormIntensity := 0\<rparr>)) = []"
    by (rule lightningCleanup_loopTimers)
  moreover have "timers (lightningCleanup (w\<lparr>stormIntensity := 0\<rparr>))
      = filter (\<lambda>t. \<not> isLoop (cb t)) (timers w)"
    using lightningCleanup_exact [OF r] assms(2) by simp
  ultimately show ?thesis unfolding w1 lightningCleanup_idem by simp
qed

subsection \<open>Running the page on concrete events\<close>

lemmas exec_defs = initialWorld_def constRng_def audioEffect_def lightningEffect_def
  lightningCleanup_def scheduleLightning_def triggerLightningEvent_def doFlash_def
  triggerThunder_def playThunder_def setLightningVal_def setGlobalVolume_def initAudio_def
  Math_random_def setTimeout_def clearTimeout_def strikeDistance_def Let_def split_def
  loopTimers_def pendingLoopDelays_def makeThunderPool_def
  THUNDER_POOL_SIZE_def newAudio_def setVolume_def freeNode_def thunderCalls_def
  poolPaused_def pendingCount_def playingCount_def

lemma run_snoc:
  "run (es @ [e]) w = (case run es w of None \<Rightarrow> None | Some w1 \<Rightarrow> step e w1)"
  by (induction es arbitrary: w) (simp_all split: option.splits)

lemma upt_0_4: "[0..<4] = [0, 1, 2, 3]"
  by (simp add: upt_rec)

lemma pendingCount_map: "pendingCount Q w = length (filter Q (map cb (timers w)))"
  by (simp add: pendingCount_def filter_map comp_def)

lemma step_intensity_pool:
  "step (SetStormIntensity v) w = Some w' \<Longrightarrow> thunderPool w' = thunderPool w"
  by (auto split: if_splits)

lemma run_append:
  "run (es @ es') w = (case run es w of None \<Rightarrow> None | Some w1 \<Rightarrow> run es' w1)"
  by (induction es arbitrary: w) (simp_all split: option.splits)

lemma clearTimeout_frame2 [simp]:
  "now (clearTimeout h w) = now w"
  "nextTimerId (clearTimeout h w) = nextTimerId w"
  "rng (clearTimeout h w) = rng w"
  "rngPos (clearTimeout h w) = rngPos w"
  "timers (clearTimeout h w) = filter (\<lambda>t. tid t \<noteq> h) (timers w)"
  by (simp_all add: clearTimeout_def)

subsection \<open>The calls of a lightning event\<close>

lemma triggerLightningEvent_calls:
  "calls (triggerLightningEvent s a w)
     = (if 0.8 < rng w (rngPos w) then calls w
        else calls w
             @ SetLightningVal ((1 - strikeDistance s (rng w (rngPos w + 1))) * 0.8 + 0.2)
             # (if a then [TriggerThunder (strikeDistance s (rng w (rngPos w + 1)))] else []))"
  by (simp add: triggerLightningEvent_def Math_random_def setTimeout_def Let_def split_def)

lemma loop_fires_calls:
  assumes "loopInv w" "earliest (timers w) = Some t" "isLoop (cb t)"
  shows "cb t = LightningLoop (stormIntensity w) (isAudioPlaying w)
     \<and> map_option calls (step TimerFires w)
         = Some (if 0.8 < rng w (rngPos w) then calls w
                 else calls w
                      @ SetLightningVal
                          ((1 - clamp (rng w (rngPos w + 1) - stormIntensity w * 0.3) 0 1) * 0.8
                             + 0.2)
                      # (if isAudioPlaying w
                         then [TriggerThunder
                                 (clamp (rng w (rngPos w + 1) - stormIntensity w * 0.3) 0 1)]
                         else []))"
proof -
  have "t \<in> set (timers w)" using assms(2) by (rule earliest_mem)
  then have "t \<in> set (loopTimers w)" using assms(3) by (simp add: loopTimers_def)
  then have c: "cb t = LightningLoop (stormIntensity w) (isAudioPlaying w)"
    using assms(1) by (simp add: loopInv_def list_all_iff)
  show ?thesis
    using assms(2)
    by (simp add: c triggerLightningEvent_calls strikeDistance_clamp)
qed

section \<open>Properties of the lightning scheduler and of the thunder mapping\<close>

text \<open>
  Claim C3, as stated, fails: a change of the intensity while a timer is pending replaces the
  pending delay. With every random draw 0.5, the timer armed at intensity 0.5 has the delay
  15000 ms; one second later the intensity is set to 0.9 and the pending delay is 7000 ms.
\<close>

theorem intensity_change_replaces_pending_delay:
  "map_option pendingLoopDelays
     (run [Mount, SetStormIntensity (1/2)] (initialWorld (constRng (1/2)))) = Some [15000]
   \<and> map_option pendingLoopDelays
       (run [Mount, SetStormIntensity (1/2), TimePasses 1000, SetStormIntensity (9/10)]
          (initialWorld (constRng (1/2)))) = Some [7000]"
  by (simp add: exec_defs)

text \<open>
  Claim C3, amended. In every state the page can reach in which a loop timer is pending, a
  change of \<^verbatim>\<open>stormIntensity\<close> to a new value \<open>v\<close> with \<open>0.01 < v \<le> 1\<close> cancels the pending
  timer (it is the one whose handle is in \<^verbatim>\<open>lightningLoopRef\<close>) and arms a new one at once:
  its delay is \<open>5000 + r * (1 - v) * 40000\<close> for a fresh draw \<open>r\<close>, computed from the new
  intensity and counted from the moment of the change; it is the only pending loop timer.
\<close>

theorem intensity_change_rearms:
  assumes "run es (initialWorld g) = Some w" "valid_rng g"
    "lightningLoopRef w = Some h" "th \<in> set (loopTimers w)"
    "v \<noteq> stormIntensity w" "0.01 < v" "v \<le> 1"
    "step (SetStormIntensity v) w = Some w'"
  shows "tid th = h
     \<and> timers w' = filter (\<lambda>t. tid t \<noteq> h) (timers w) @
          [\<lparr>tid = nextTimerId w,
            delay = 5000 + rng w (rngPos w) * ((1 - v) * 40000),
            due = now w + (5000 + rng w (rngPos w) * ((1 - v) * 40000)),
            cb = LightningLoop v (isAudioPlaying w)\<rparr>]
     \<and> pendingLoopDelays w' = [5000 + rng w (rngPos w) * ((1 - v) * 40000)]
     \<and> lightningLoopRef w' = Some (nextTimerId w)
     \<and> 5000 \<le> 5000 + rng w (rngPos w) * ((1 - v) * 40000)
     \<and> 5000 + rng w (rngPos w) * ((1 - v) * 40000) \<le> 5000 + (1 - v) * 40000"
proof -
  let ?D = "5000 + rng w (rngPos w) * ((1 - v) * 40000)"
  let ?x = "w\<lparr>stormIntensity := v\<rparr>"
  have inv: "loopInv w" using loopInv_initial assms(1) by (rule run_loopInv)
  have "lightningLoopRef w = Some (tid th)"
    using inv assms(4) by (simp add: loopInv_def list_all_iff)
  then have h: "tid th = h" using assms(3) by simp
  have rg: "rng w = g" using run_rng [OF assms(1)] by (simp add: initialWorld_def)
  have r: "0 \<le> rng w (rngPos w)" "rng w (rngPos w) < 1"
    using assms(2) unfolding rg valid_rng_def by simp_all
  have k: "0 \<le> (1 - v) * 40000" using assms(7) by simp
  have d0: "0 \<le> rng w (rngPos w) * ((1 - v) * 40000)" using r(1) k by simp
  have d1: "rng w (rngPos w) * ((1 - v) * 40000) \<le> 1 * ((1 - v) * 40000)"
    using r(2) k by (intro mult_right_mono) simp_all
  have w': "w' = lightningEffect (lightningCleanup ?x)"
    using assms(5,8) by (auto split: if_splits)
  have c: "lightningCleanup ?x = clearTimeout h ?x"
    using assms(3) by (simp add: lightningCleanup_def)
  have e: "w' = scheduleLightning v (isAudioPlaying w) (clearTimeout h ?x)"
    unfolding w' lightningEffect_as_schedule lightningCleanup_idem
    using assms(6) by (simp add: c)
  have "refInv ?x" using inv by (simp add: loopInv_refInv)
  then have "loopTimers (lightningCleanup ?x) = []" by (rule lightningCleanup_loopTimers)
  then have l: "loopTimers (clearTimeout h ?x) = []" by (simp add: c)
  have tm: "timers w' = filter (\<lambda>t. tid t \<noteq> h) (timers w) @
          [\<lparr>tid = nextTimerId w, delay = ?D, due = now w + ?D,
            cb = LightningLoop v (isAudioPlaying w)\<rparr>]"
    unfolding e using assms(6) d0 by (simp add: scheduleLightning_timers max_def)
  have pl: "pendingLoopDelays w' = [?D]"
    unfolding e pendingLoopDelays_def using assms(6) l
    by (simp add: scheduleLightning_loopTimers)
  have rf: "lightningLoopRef w' = Some (nextTimerId w)"
    unfolding e using assms(6) by (simp add: scheduleLightning_ref)
  have b1: "5000 \<le> ?D" using d0 by simp
  have b2: "?D \<le> 5000 + (1 - v) * 40000" using d1 by simp
  show ?thesis by (intro conjI) (rule h tm pl rf b1 b2)+
qed

theorem intensity_change_rearms_witness:
  "run [Mount, SetStormIntensity (1/2), SetStormIntensity (9/10)] (initialWorld (constRng (1/2)))
      \<noteq> None
   \<and> valid_rng (constRng (1/2))
   \<and> map_option pendingLoopDelays
       (run [Mount, SetStormIntensity (1/2)] (initialWorld (constRng (1/2)))) = Some [15000]
   \<and> map_option pendingLoopDelays
       (run [Mount, SetStormIntensity (1/2), SetStormIntensity (9/10)]
          (initialWorld (constRng (1/2)))) = Some [7000]"
proof -
  let ?i = "initialWorld (constRng (1/2))"
  have r0: "run [Mount, SetStormIntensity (1/2)] ?i \<noteq> None" by (simp add: exec_defs)
  then obtain w where w: "run [Mount, SetStormIntensity (1/2)] ?i = Some w" by blast
  have r1: "run ([Mount, SetStormIntensity (1/2)] @ [SetStormIntensity (9/10)]) ?i \<noteq> None"
    by (simp add: exec_defs)
  then obtain w' where s: "step (SetStormIntensity (9/10)) w = Some w'"
    unfolding run_snoc w by auto
  have q: "run [Mount, SetStormIntensity (1/2), SetStormIntensity (9/10)] ?i = Some w'"
    using run_snoc [of "[Mount, SetStormIntensity (1/2)]" "SetStormIntensity (9/10)" ?i] w s
    by simp
  have v: "valid_rng (constRng (1/2))" by (simp add: valid_rng_def constRng_def)
  have o: "map_option lightningLoopRef (run [Mount, SetStormIntensity (1/2)] ?i) = Some (Some 1)"
    "map_option loopTimers (run [Mount, SetStormIntensity (1/2)] ?i)
       = Some [\<lparr>tid = 1, delay = 15000, due = 15000, cb = LightningLoop (1/2) True\<rparr>]"
    "map_option stormIntensity (run [Mount, SetStormIntensity (1/2)] ?i) = Some (1/2)"
    "map_option rngPos (run [Mount, SetStormIntensity (1/2)] ?i) = Some 1"
    by (simp_all add: exec_defs)
  have a: "lightningLoopRef w = Some 1"
    "\<lparr>tid = 1, delay = 15000, due = 15000, cb = LightningLoop (1/2) True\<rparr> \<in> set (loopTimers w)"
    "9/10 \<noteq> stormIntensity w" "rngPos w = 1"
    using o unfolding w by simp_all
  have rg: "rng w = constRng (1/2)" using run_rng [OF w] by (simp add: initialWorld_def)
  have "pendingLoopDelays w' = [5000 + rng w (rngPos w) * ((1 - 9/10) * 40000)]"
    using intensity_change_rearms [OF w v a(1) a(2) a(3) _ _ s] by simp
  then have p: "pendingLoopDelays w' = [7000]" by (simp add: rg constRng_def)
  have p0: "map_option pendingLoopDelays (run [Mount, SetStormIntensity (1/2)] ?i) = Some [15000]"
    using o(2) unfolding w by (simp add: pendingLoopDelays_def)
  show ?thesis using q v p p0 by simp
qed

text \<open>
  Claim C4. When the lightning event runs and does not skip (its first draw is at most 0.8),
  the distance it generates is \<open>clamp (raw - s * 0.3) 0 1\<close>, where \<open>raw\<close> is its second draw
  and \<open>s\<close> the intensity it captured: this is the distance it passes to
  \<^verbatim>\<open>triggerThunder\<close> when the audio is on, and the brightness it sets is
  \<open>(1 - distance) * 0.8 + 0.2\<close>. In every state the page can reach, the loop timer that
  fires carries the current \<^verbatim>\<open>stormIntensity\<close> and \<^verbatim>\<open>isAudioPlaying\<close>, so the distance
  generated is \<open>clamp (random - stormIntensity * 0.3) 0 1\<close>. For a fixed draw the distance
  does not increase with the intensity. The expected distance is read as the mean over a
  sample of draws: for every non-empty sample of draws in \<open>[0, 1)\<close> with at least one draw
  above 0.03, the mean distance at intensity 0.9 is below the mean at intensity 0.1 for the
  same draws.
\<close>

theorem strike_distance_bias:
  "calls (triggerLightningEvent s a w)
     = (if 0.8 < rng w (rngPos w) then calls w
        else calls w
             @ SetLightningVal ((1 - strikeDistance s (rng w (rngPos w + 1))) * 0.8 + 0.2)
             # (if a then [TriggerThunder (strikeDistance s (rng w (rngPos w + 1)))] else []))
   \<and> (run es (initialWorld g) = Some w \<and> earliest (timers w) = Some t \<and> isLoop (cb t) \<longrightarrow>
        cb t = LightningLoop (stormIntensity w) (isAudioPlaying w)
        \<and> map_option calls (step TimerFires w)
            = Some (if 0.8 < g (rngPos w) then calls w
                    else calls w
                         @ SetLightningVal
                             ((1 - clamp (g (rngPos w + 1) - stormIntensity w * 0.3) 0 1) * 0.8
                                + 0.2)
                         # (if isAudioPlaying w
                            then [TriggerThunder
                                    (clamp (g (rngPos w + 1) - stormIntensity w * 0.3) 0 1)]
                            else [])))
   \<and> strikeDistance s raw = clamp (raw - s * 0.3) 0 1
   \<and> (s1 \<le> s2 \<longrightarrow> strikeDistance s2 raw \<le> strikeDistance s1 raw)
   \<and> (draws \<noteq> [] \<and> (\<forall>r\<in>set draws. 0 \<le> r \<and> r < 1) \<and> (\<exists>r\<in>set draws. 0.03 < r) \<longrightarrow>
        mean (map (strikeDistance 0.9) draws) < mean (map (strikeDistance 0.1) draws))"
proof (intro conjI impI)
  assume a: "draws \<noteq> [] \<and> (\<forall>r\<in>set draws. 0 \<le> r \<and> r < 1) \<and> (\<exists>r\<in>set draws. 0.03 < r)"
  have le: "\<forall>r\<in>set draws. strikeDistance 0.9 r \<le> strikeDistance 0.1 r"
    by (simp add: strikeDistance_antimono)
  have lt: "\<exists>r\<in>set draws. strikeDistance 0.9 r < strikeDistance 0.1 r"
    using a strikeDistance_strict by blast
  have "sum_list (map (strikeDistance 0.9) draws) < sum_list (map (strikeDistance 0.1) draws)"
    using le lt by (rule sum_list_strict)
  moreover have "0 < real (length draws)" using a by simp
  ultimately show "mean (map (strikeDistance 0.9) draws) < mean (map (strikeDistance 0.1) draws)"
    by (simp add: mean_def divide_strict_right_mono)
next
  show "strikeDistance s raw = clamp (raw - s * 0.3) 0 1" by (rule strikeDistance_clamp)
next
  assume "s1 \<le> s2"
  then show "strikeDistance s2 raw \<le> strikeDistance s1 raw" by (rule strikeDistance_antimono)
next
  show "calls (triggerLightningEvent s a w)
     = (if 0.8 < rng w (rngPos w) then calls w
        else calls w
             @ SetLightningVal ((1 - strikeDistance s (rng w (rngPos w + 1))) * 0.8 + 0.2)
             # (if a then [TriggerThunder (strikeDistance s (rng w (rngPos w + 1)))] else []))"
    by (rule triggerLightningEvent_calls)
next
  assume h: "run es (initialWorld g) = Some w \<and> earliest (timers w) = Some t \<and> isLoop (cb t)"
  have inv: "loopInv w" using loopInv_initial h by (blast intro: run_loopInv)
  have rg: "rng w = g" using run_rng [of es "initialWorld g" w] h by (simp add: initialWorld_def)
  note f = loop_fires_calls [OF inv, of t, unfolded rg]
  show "cb t = LightningLoop (stormIntensity w) (isAudioPlaying w)" using f h by blast
  show "map_option calls (step TimerFires w)
            = Some (if 0.8 < g (rngPos w) then calls w
                    else calls w
                         @ SetLightningVal
                             ((1 - clamp (g (rngPos w + 1) - stormIntensity w * 0.3) 0 1) * 0.8
                                + 0.2)
                         # (if isAudioPlaying w
                            then [TriggerThunder
                                    (clamp (g (rngPos w + 1) - stormIntensity w * 0.3) 0 1)]
                            else []))"
    using f h by blast
qed

theorem strike_distance_bias_witness:
  "run [Mount, SetStormIntensity (1/2)] (initialWorld (constRng (3/4))) \<noteq> None
   \<and> map_option (\<lambda>w. map_option cb (earliest (timers w)))
       (run [Mount, SetStormIntensity (1/2)] (initialWorld (constRng (3/4))))
       = Some (Some (LightningLoop (1/2) True))
   \<and> map_option calls
       (run [Mount, SetStormIntensity (1/2), TimerFires] (initialWorld (constRng (3/4))))
       = Some [SetLightningVal (13/25), TriggerThunder (3/5)]
   \<and> strikeDistance (1/2) (3/4) = 3/5
   \<and> ((1/10 :: real) \<le> 9/10 \<and> strikeDistance (9/10) (3/4) \<le> strikeDistance (1/10) (3/4))
   \<and> ([0, 1/2 :: real] \<noteq> [] \<and> (0 :: real) \<le> 0 \<and> (0 :: real) < 1 \<and> (0 :: real) \<le> 1/2
        \<and> (1/2 :: real) < 1 \<and> (0.03 :: real) < 1/2
        \<and> mean (map (strikeDistance 0.9) [0, 1/2]) < mean (map (strikeDistance 0.1) [0, 1/2]))"
proof -
  let ?i = "initialWorld (constRng (3/4))"
  have r0: "run [Mount, SetStormIntensity (1/2)] ?i \<noteq> None" by (simp add: exec_defs)
  then obtain w where w: "run [Mount, SetStormIntensity (1/2)] ?i = Some w" by blast
  have o: "map_option timers (run [Mount, SetStormIntensity (1/2)] ?i)
       = Some [\<lparr>tid = 1, delay = 20000, due = 20000, cb = LightningLoop (1/2) True\<rparr>]"
    "map_option calls (run [Mount, SetStormIntensity (1/2)] ?i) = Some []"
    "map_option stormIntensity (run [Mount, SetStormIntensity (1/2)] ?i) = Some (1/2)"
    "map_option isAudioPlaying (run [Mount, SetStormIntensity (1/2)] ?i) = Some True"
    by (simp_all add: exec_defs)
  have tw: "timers w = [\<lparr>tid = 1, delay = 20000, due = 20000, cb = LightningLoop (1/2) True\<rparr>]"
    and cw: "calls w = []" and sw: "stormIntensity w = 1/2" and aw: "isAudioPlaying w"
    using o unfolding w by simp_all
  have e: "earliest (timers w)
      = Some \<lparr>tid = 1, delay = 20000, due = 20000, cb = LightningLoop (1/2) True\<rparr>"
    unfolding tw by simp
  note c = strike_distance_bias [where s = "1/2" and raw = "3/4" and ?s1.0 = "1/10"
      and ?s2.0 = "9/10" and draws = "[0, 1/2]" and es = "[Mount, SetStormIntensity (1/2)]"
      and g = "constRng (3/4)" and w = w
      and t = "\<lparr>tid = 1, delay = 20000, due = 20000, cb = LightningLoop (1/2) True\<rparr>"]
  have "map_option calls (step TimerFires w)
            = Some (if 0.8 < constRng (3/4) (rngPos w) then calls w
                    else calls w
                         @ SetLightningVal
                             ((1 - clamp (constRng (3/4) (rngPos w + 1) - stormIntensity w * 0.3) 0 1)
                                * 0.8 + 0.2)
                         # (if isAudioPlaying w
                            then [TriggerThunder
                                    (clamp (constRng (3/4) (rngPos w + 1) - stormIntensity w * 0.3) 0 1)]
                            else []))"
    using c w e by simp
  then have f: "map_option calls (step TimerFires w)
      = Some [SetLightningVal (13/25), TriggerThunder (3/5)]"
    by (simp add: cw sw aw constRng_def clamp_def)
  have q: "map_option calls (run [Mount, SetStormIntensity (1/2), TimerFires] ?i)
      = Some [SetLightningVal (13/25), TriggerThunder (3/5)]"
    using run_snoc [of "[Mount, SetStormIntensity (1/2)]" TimerFires ?i] w f by simp
  have e2: "map_option (\<lambda>w. map_option cb (earliest (timers w)))
       (run [Mount, SetStormIntensity (1/2)] ?i) = Some (Some (LightningLoop (1/2) True))"
    unfolding w using e by simp
  have h: "[0, 1/2 :: real] \<noteq> [] \<and> (\<forall>r\<in>set [0, 1/2 :: real]. 0 \<le> r \<and> r < 1)
      \<and> (\<exists>r\<in>set [0, 1/2 :: real]. 0.03 < r)"
  proof (intro conjI)
    show "\<exists>r\<in>set [0, 1/2 :: real]. 0.03 < r" by (rule bexI [of _ "1/2"]) simp_all
  qed simp_all
  have m: "mean (map (strikeDistance 0.9) [0, 1/2]) < mean (map (strikeDistance 0.1) [0, 1/2])"
    using c h by blast
  have "strikeDistance (1/2) (3/4) = clamp (3/4 - 1/2 * 0.3) 0 1" using c by blast
  then have d: "strikeDistance (1/2) (3/4) = 3/5" by (simp add: clamp_def)
  have "(1/10 :: real) \<le> 9/10" by simp
  then have o2: "strikeDistance (9/10) (3/4) \<le> strikeDistance (1/10) (3/4)" using c by blast
  show ?thesis using r0 e2 q m d o2 by simp
qed

text \<open>
  Claim C5, as stated, fails: \<^verbatim>\<open>triggerThunder\<close> does not schedule playback for every
  distance. After the volume was set to 3 percent the service is initialised, yet a call with
  distance 0.5 schedules nothing.
\<close>

theorem thunder_not_scheduled_at_low_volume:
  "run [Mount, SetAudioVolume (3/100)] (initialWorld (constRng (1/2)))
     = Some (audioEffect ((mountedWorld (constRng (1/2)))\<lparr>audioVolume := 3/100\<rparr>))
   \<and> isInitialized (audioEffect ((mountedWorld (constRng (1/2)))\<lparr>audioVolume := 3/100\<rparr>))
   \<and> timers (triggerThunder (1/2)
        (audioEffect ((mountedWorld (constRng (1/2)))\<lparr>audioVolume := 3/100\<rparr>))) = []"
proof -
  have v: "globalVolumeScalar (audioEffect ((mountedWorld (constRng (1/2)))\<lparr>audioVolume := 3/100\<rparr>))
      = 3/100"
    by (simp add: audioEffect_def mountedWorld_def initialWorld_def)
  have i: "isInitialized (audioEffect ((mountedWorld (constRng (1/2)))\<lparr>audioVolume := 3/100\<rparr>))"
    by (simp add: audioEffect_def mountedWorld_audio initAudio_def)
  have r: "run [Mount, SetAudioVolume (3/100)] (initialWorld (constRng (1/2)))
     = Some (audioEffect ((mountedWorld (constRng (1/2)))\<lparr>audioVolume := 3/100\<rparr>))"
  proof -
    have s2: "step (SetAudioVolume (3/100)) (mountedWorld (constRng (1/2)))
        = Some (audioEffect ((mountedWorld (constRng (1/2)))\<lparr>audioVolume := 3/100\<rparr>))"
      by (simp add: mountedWorld_audio)
    show ?thesis by (simp only: run.simps step_Mount s2 option.case)
  qed
  have t: "timers (triggerThunder (1/2)
        (audioEffect ((mountedWorld (constRng (1/2)))\<lparr>audioVolume := 3/100\<rparr>))) = []"
    by (simp add: triggerThunder_timers v mountedWorld_audio)
  show ?thesis using r i t by blast
qed

text \<open>
  Claim C5, amended. In every state the page can reach in which the service is initialised and
  the global volume scalar is above 0.05, for every distance in \<open>[0, 1]\<close>: the pool has its
  four elements; \<^verbatim>\<open>triggerThunder\<close> picks the first paused element of the pool, and element
  0 when none is paused; it schedules exactly one timer, with the delay
  \<open>distance * 4000 + r1 * 500\<close>, whose callback carries the volume
  \<open>max 0.1 ((1 - distance) * 0.8) * globalVolumeScalar\<close> and the rate
  \<open>1.1 - distance * 0.5 + r2 * 0.1\<close>, where \<open>r1\<close> and \<open>r2\<close> are the next two random draws,
  so that \<open>r1 * 500\<close> lies in \<open>[0, 500)\<close> and \<open>r2 * 0.1\<close> in \<open>[0, 0.1)\<close>; and when that timer
  fires, the picked element gets this volume and rate, is rewound and plays.
\<close>

theorem thunder_mapping:
  assumes "run es (initialWorld g) = Some w" "valid_rng g"
    "isInitialized w" "0.05 < globalVolumeScalar w" "0 \<le> d" "d \<le> 1"
  shows "length (thunderPool w) = 4
     \<and> freeNode (thunderPool w) < 4
     \<and> ((\<exists>i<4. paused (thunderPool w ! i)) \<longrightarrow>
           paused (thunderPool w ! freeNode (thunderPool w))
           \<and> (\<forall>j<freeNode (thunderPool w). \<not> paused (thunderPool w ! j)))
     \<and> ((\<forall>i<4. \<not> paused (thunderPool w ! i)) \<longrightarrow> freeNode (thunderPool w) = 0)
     \<and> timers (triggerThunder d w) = timers w @
          [\<lparr>tid = nextTimerId w,
            delay = d * 4000 + rng w (rngPos w) * 500,
            due = now w + (d * 4000 + rng w (rngPos w) * 500),
            cb = ThunderPlay (freeNode (thunderPool w))
                   (max 0.1 ((1 - d) * 0.8) * globalVolumeScalar w)
                   (1.1 - d * 0.5 + rng w (rngPos w + 1) * 0.1)\<rparr>]
     \<and> 0 \<le> rng w (rngPos w) * 500 \<and> rng w (rngPos w) * 500 < 500
     \<and> 0 \<le> rng w (rngPos w + 1) * 0.1 \<and> rng w (rngPos w + 1) * 0.1 < 0.1
     \<and> (length (thunderPool w') = 4 \<longrightarrow>
          thunderPool (runCallback (ThunderPlay (freeNode (thunderPool w))
                   (max 0.1 ((1 - d) * 0.8) * globalVolumeScalar w)
                   (1.1 - d * 0.5 + rng w (rngPos w + 1) * 0.1)) w')
          = (thunderPool w')[freeNode (thunderPool w) :=
               (thunderPool w' ! freeNode (thunderPool w))
                 \<lparr>volume := max 0.1 ((1 - d) * 0.8) * globalVolumeScalar w,
                  playbackRate := 1.1 - d * 0.5 + rng w (rngPos w + 1) * 0.1,
                  currentTime := 0, paused := False\<rparr>])"
proof -
  have inv: "audioInv w" using audioInv_initial assms(1) by (rule run_audioInv)
  have len: "length (thunderPool w) = 4"
    using inv assms(3) by (simp add: audioInv_def THUNDER_POOL_SIZE_def)
  have g: "0 \<le> globalVolumeScalar w" "globalVolumeScalar w \<le> 1"
    using inv by (simp_all add: audioInv_def)
  have rg: "rng w = g" using run_rng [OF assms(1)] by (simp add: initialWorld_def)
  have r1: "0 \<le> rng w (rngPos w) \<and> rng w (rngPos w) < 1"
    using assms(2) unfolding rg valid_rng_def by blast
  have r2: "0 \<le> rng w (rngPos w + 1) \<and> rng w (rngPos w + 1) < 1"
    using assms(2) unfolding rg valid_rng_def by blast
  have pos: "0 \<le> d * 4000 + rng w (rngPos w) * 500" using assms(5) r1 by simp
  have p: "0 < length (thunderPool w)" using len by simp
  note fn = freeNode_first [OF p, unfolded len]
  have tm: "timers (triggerThunder d w) = timers w @
          [\<lparr>tid = nextTimerId w,
            delay = d * 4000 + rng w (rngPos w) * 500,
            due = now w + (d * 4000 + rng w (rngPos w) * 500),
            cb = ThunderPlay (freeNode (thunderPool w))
                   (max 0.1 ((1 - d) * 0.8) * globalVolumeScalar w)
                   (1.1 - d * 0.5 + rng w (rngPos w + 1) * 0.1)\<rparr>]"
    using assms(3,4) pos by (simp add: triggerThunder_timers max_def)
  have ev: "0 \<le> max 0.1 ((1 - d) * 0.8) * globalVolumeScalar w
      \<and> max 0.1 ((1 - d) * 0.8) * globalVolumeScalar w \<le> 1"
    using assms(5,6) g by (rule eventVolume_range)
  have play: "length (thunderPool w') = 4 \<longrightarrow>
          thunderPool (runCallback (ThunderPlay (freeNode (thunderPool w))
                   (max 0.1 ((1 - d) * 0.8) * globalVolumeScalar w)
                   (1.1 - d * 0.5 + rng w (rngPos w + 1) * 0.1)) w')
          = (thunderPool w')[freeNode (thunderPool w) :=
               (thunderPool w' ! freeNode (thunderPool w))
                 \<lparr>volume := max 0.1 ((1 - d) * 0.8) * globalVolumeScalar w,
                  playbackRate := 1.1 - d * 0.5 + rng w (rngPos w + 1) * 0.1,
                  currentTime := 0, paused := False\<rparr>]"
    using ev fn(1) by (simp add: playThunder_def)
  have rr: "0 \<le> rng w (rngPos w) * 500" "rng w (rngPos w) * 500 < 500"
     "0 \<le> rng w (rngPos w + 1) * 0.1" "rng w (rngPos w + 1) * 0.1 < 0.1"
    using r1 r2 by simp_all
  show ?thesis by (intro conjI) (rule len fn tm rr play)+
qed

theorem thunder_mapping_witness:
  "run [Mount] (initialWorld (constRng (1/2))) = Some (mountedWorld (constRng (1/2)))
   \<and> valid_rng (constRng (1/2))
   \<and> isInitialized (mountedWorld (constRng (1/2)))
   \<and> 0.05 < globalVolumeScalar (mountedWorld (constRng (1/2)))
   \<and> (0 :: real) \<le> 1/2 \<and> (1/2 :: real) \<le> 1
   \<and> length (thunderPool (mountedWorld (constRng (1/2)))) = 4
   \<and> paused (thunderPool (mountedWorld (constRng (1/2))) ! 0)
   \<and> paused (thunderPool (mountedWorld (constRng (1/2)))
         ! freeNode (thunderPool (mountedWorld (constRng (1/2)))))
   \<and> timers (triggerThunder (1/2) (mountedWorld (constRng (1/2)))) =
        [\<lparr>tid = 1, delay = 2250, due = 2250,
          cb = ThunderPlay (freeNode (thunderPool (mountedWorld (constRng (1/2))))) (2/5) (9/10)\<rparr>]"
proof -
  have a: "run [Mount] (initialWorld (constRng (1/2))) = Some (mountedWorld (constRng (1/2)))"
    by (rule run_Mount)
  have b: "valid_rng (constRng (1/2))" by (simp add: valid_rng_def constRng_def)
  have c: "isInitialized (mountedWorld (constRng (1/2)))" by (rule mountedWorld_audio)
  have d: "0.05 < globalVolumeScalar (mountedWorld (constRng (1/2)))"
    by (simp add: mountedWorld_audio)
  have e: "(0 :: real) \<le> 1/2" "(1/2 :: real) \<le> 1" by simp_all
  have p: "paused (thunderPool (mountedWorld (constRng (1/2))) ! 0)" by (rule mountedWorld_pool)
  note t = thunder_mapping [OF a b c d e]
  have x: "\<exists>i<4. paused (thunderPool (mountedWorld (constRng (1/2))) ! i)"
    using p by (intro exI [of _ 0]) simp
  have f: "paused (thunderPool (mountedWorld (constRng (1/2)))
         ! freeNode (thunderPool (mountedWorld (constRng (1/2)))))"
    using t x by blast
  have l: "length (thunderPool (mountedWorld (constRng (1/2)))) = 4" using t by blast
  have m: "timers (triggerThunder (1/2) (mountedWorld (constRng (1/2)))) =
        [\<lparr>tid = 1, delay = 2250, due = 2250,
          cb = ThunderPlay (freeNode (thunderPool (mountedWorld (constRng (1/2))))) (2/5) (9/10)\<rparr>]"
    using t by (simp add: mountedWorld_audio constRng_def)
  show ?thesis by (intro conjI) (rule a b c d e p f l m)+
qed

text \<open>
  Claim C6, as stated, fails in its second part: a flash and a thunder sound can fire after
  the intensity was set to 0. With every random draw 0.75 the first strike, at 20000 ms, is a
  double flash with thunder. The intensity is set to 0 at 20100 ms, when no thunder sound
  plays. The first flash then ends and the second flash, of brightness 0.52, fires although
  the intensity is 0; and at 22775 ms, the intensity still 0, the thunder of that strike
  starts to play on the first element of the pool.
\<close>

theorem second_flash_after_idle:
  "map_option calls
     (run [Mount, SetStormIntensity (1/2), TimerFires, TimePasses 100, SetStormIntensity 0]
        (initialWorld (constRng (3/4))))
     = Some [SetLightningVal (13/25), TriggerThunder (3/5)]
   \<and> map_option stormIntensity
     (run [Mount, SetStormIntensity (1/2), TimerFires, TimePasses 100, SetStormIntensity 0,
           TimerFires, TimerFires]
        (initialWorld (constRng (3/4)))) = Some 0
   \<and> map_option calls
     (run [Mount, SetStormIntensity (1/2), TimerFires, TimePasses 100, SetStormIntensity 0,
           TimerFires, TimerFires]
        (initialWorld (constRng (3/4))))
     = Some [SetLightningVal (13/25), TriggerThunder (3/5), SetLightningVal 0,
             SetLightningVal (13/25)]
   \<and> map_option (\<lambda>w. (now w, poolPaused w))
     (run [Mount, SetStormIntensity (1/2), TimerFires, TimePasses 100, SetStormIntensity 0]
        (initialWorld (constRng (3/4))))
     = Some (20100, [True, True, True, True])
   \<and> map_option (\<lambda>w. (now w, stormIntensity w, poolPaused w))
     (run [Mount, SetStormIntensity (1/2), TimerFires, TimePasses 100, SetStormIntensity 0,
           TimerFires, TimerFires, TimerFires, TimerFires]
        (initialWorld (constRng (3/4))))
     = Some (22775, 0, [False, True, True, True])"
  by (simp add: exec_defs upt_0_4)

text \<open>
  Claim C6, amended. In every state the page can reach, setting \<^verbatim>\<open>stormIntensity\<close> to 0
  cancels the pending loop timers at once and nothing else: the pending flash-off timers,
  second flashes and thunder playbacks all stay pending, and nothing is called. Through every
  sequence of later events that does not raise the intensity above 0, the intensity stays at
  most 0 and no loop timer is pending; \<^verbatim>\<open>triggerThunder\<close> is not called and no thunder
  playback is scheduled, so that a thunder sound starts only when a playback that was already
  pending fires (the sounds playing and the playbacks pending are together no more than they
  were); each second flash that was pending fires at most once (for each brightness other
  than 0, the flashes of that brightness made since and the second flashes of that brightness
  still pending are together no more than the second flashes of that brightness that were
  pending); and the calls made since are at most one for each flash-off that was pending and
  two for each second flash that was pending.
\<close>

theorem idle_after_zero:
  assumes "run es (initialWorld g) = Some w"
    "step (SetStormIntensity 0) w = Some w1"
    "list_all keepsIdle es'"
    "run es' w1 = Some w2"
  shows "timers w1 = filter (\<lambda>t. \<not> isLoop (cb t)) (timers w)
     \<and> calls w1 = calls w
     \<and> stormIntensity w2 \<le> 0 \<and> loopTimers w2 = []
     \<and> (\<forall>c. isThunderPlay c \<longrightarrow> pendingCount ((=) c) w2 \<le> pendingCount ((=) c) w1)
     \<and> playingCount w2 + pendingCount isThunderPlay w2
           \<le> playingCount w1 + pendingCount isThunderPlay w1
     \<and> (\<exists>new. calls w2 = calls w1 @ new
           \<and> list_all (\<lambda>c. \<not> isThunderCall c) new
           \<and> (\<forall>b. b \<noteq> 0 \<longrightarrow>
                 count_list new (SetLightningVal b) + pendingCount ((=) (DoFlash b)) w2
                   \<le> pendingCount ((=) (DoFlash b)) w1)
           \<and> length new + pendingCount ((=) FlashOff) w2 + 2 * pendingCount isDoFlash w2
                 \<le> pendingCount ((=) FlashOff) w1 + 2 * pendingCount isDoFlash w1)"
proof -
  have inv: "loopInv w" using loopInv_initial assms(1) by (rule run_loopInv)
  have ids: "idInv w" using idInv_initial assms(1) by (rule run_idInv)
  have z: "stormIntensity w1 = 0 \<and> loopTimers w1 = []
     \<and> timers w1 = filter (\<lambda>t. \<not> isLoop (cb t)) (timers w) \<and> calls w1 = calls w"
    using inv ids assms(2) by (rule zero_step_idle)
  have i: "idleSince w1 w2"
    using z assms(3,4) by (intro idle_run) simp_all
  show ?thesis using z i unfolding idleSince_def by blast
qed

theorem idle_after_zero_witness:
  "run [Mount, SetStormIntensity (1/2), TimerFires, TimePasses 100, SetStormIntensity 0,
        TimerFires, TimerFires] (initialWorld (constRng (3/4))) \<noteq> None
   \<and> list_all keepsIdle [TimerFires, TimerFires]
   \<and> map_option (\<lambda>w. map cb (timers w))
       (run [Mount, SetStormIntensity (1/2), TimerFires, TimePasses 100, SetStormIntensity 0]
          (initialWorld (constRng (3/4))))
       = Some [FlashOff, DoFlash (13/25), ThunderPlay 0 (8/25) (7/8)]
   \<and> map_option loopTimers
       (run [Mount, SetStormIntensity (1/2), TimerFires, TimePasses 100, SetStormIntensity 0,
             TimerFires, TimerFires] (initialWorld (constRng (3/4)))) = Some []
   \<and> map_option (\<lambda>w. playingCount w + pendingCount isThunderPlay w \<le> 1)
       (run [Mount, SetStormIntensity (1/2), TimerFires, TimePasses 100, SetStormIntensity 0,
             TimerFires, TimerFires] (initialWorld (constRng (3/4)))) = Some True"
proof -
  let ?i = "initialWorld (constRng (3/4))"
  let ?es = "[Mount, SetStormIntensity (1/2), TimerFires, TimePasses 100]"
  have r0: "run ?es ?i \<noteq> None" by (simp add: exec_defs)
  then obtain w where w: "run ?es ?i = Some w" by blast
  have r1: "run (?es @ [SetStormIntensity 0]) ?i \<noteq> None" by (simp add: exec_defs)
  then obtain w1 where s: "step (SetStormIntensity 0) w = Some w1"
    unfolding run_snoc w by auto
  have q1: "run [Mount, SetStormIntensity (1/2), TimerFires, TimePasses 100, SetStormIntensity 0] ?i
      = Some w1"
    using run_snoc [of ?es "SetStormIntensity 0" ?i] w s by simp
  have r2: "run ([Mount, SetStormIntensity (1/2), TimerFires, TimePasses 100, SetStormIntensity 0]
      @ [TimerFires, TimerFires]) ?i \<noteq> None"
    by (simp add: exec_defs)
  then obtain w2 where e: "run [TimerFires, TimerFires] w1 = Some w2"
    unfolding run_append q1 by auto
  have q2: "run [Mount, SetStormIntensity (1/2), TimerFires, TimePasses 100, SetStormIntensity 0,
        TimerFires, TimerFires] ?i = Some w2"
    using run_append [of "[Mount, SetStormIntensity (1/2), TimerFires, TimePasses 100,
        SetStormIntensity 0]" "[TimerFires, TimerFires]" ?i] q1 e by simp
  have k: "list_all keepsIdle [TimerFires, TimerFires]" by simp
  have o: "map_option (\<lambda>w. map cb (timers w)) (run ?es ?i)
      = Some [FlashOff, DoFlash (13/25), ThunderPlay 0 (8/25) (7/8), LightningLoop (1/2) True]"
    "map_option playingCount (run ?es ?i) = Some 0"
    by (simp_all add: exec_defs upt_0_4)
  have tw: "map cb (timers w)
      = [FlashOff, DoFlash (13/25), ThunderPlay 0 (8/25) (7/8), LightningLoop (1/2) True]"
    and pw: "playingCount w = 0"
    using o unfolding w by simp_all
  note c = idle_after_zero [OF w s k e]
  have t1: "timers w1 = filter (\<lambda>t. \<not> isLoop (cb t)) (timers w)" using c by blast
  have "map cb (timers w1) = filter (\<lambda>c. \<not> isLoop c) (map cb (timers w))"
    unfolding t1 by (simp add: filter_map comp_def)
  then have m1: "map cb (timers w1) = [FlashOff, DoFlash (13/25), ThunderPlay 0 (8/25) (7/8)]"
    unfolding tw by simp
  have l2: "loopTimers w2 = []" using c by blast
  have p1: "pendingCount isThunderPlay w1 = 1"
    unfolding pendingCount_map m1 by simp
  have "thunderPool w1 = thunderPool w" using s by (rule step_intensity_pool)
  then have pl1: "playingCount w1 = 0" using pw by (simp add: playingCount_def)
  have "playingCount w2 + pendingCount isThunderPlay w2
      \<le> playingCount w1 + pendingCount isThunderPlay w1" using c by blast
  then have p2: "playingCount w2 + pendingCount isThunderPlay w2 \<le> 1" using p1 pl1 by simp
  show ?thesis using q1 q2 k m1 l2 p2 by simp
qed

text \<open>
  Claim C10. Whenever the audio service has not been initialised, or the global volume scalar
  is at most 0.05, \<^verbatim>\<open>triggerThunder\<close> returns at once for every distance: the whole state is
  unchanged, so no timer is scheduled, no random number is drawn and no element of the pool is
  touched. The 0.1 floor of the event volume is never reached in this case.
\<close>

theorem triggerThunder_dropped:
  "\<not> isInitialized w \<or> globalVolumeScalar w \<le> 0.05 \<Longrightarrow> triggerThunder d w = w"
  by (auto simp: triggerThunder_def)

theorem triggerThunder_dropped_witness:
  "\<not> isInitialized (initialWorld (constRng 0))
   \<and> triggerThunder (1/2) (initialWorld (constRng 0)) = initialWorld (constRng 0)"
  using triggerThunder_dropped [of "initialWorld (constRng 0)" "1/2"]
  by (simp add: initialWorld_def)

section \<open>Properties of the texture loading\<close>

text \<open>
  Claim C9, as stated, fails: the texture of a load that arrives late becomes the current
  texture. Image a is selected, then image b; b loads first, then a: the current texture is
  that of a while b is selected. Likewise when the selection is cleared before a arrives.
\<close>

theorem late_texture_becomes_current:
  "backgroundUrl
     (shaderRun [SelectBackground (Some ''a.png''), SelectBackground (Some ''b.png''),
                 LoadCompletes 1 (Some (4, 3)), LoadCompletes 0 (Some (16, 9))] initialShader)
     = Some ''b.png''
   \<and> currentTexture
     (shaderRun [SelectBackground (Some ''a.png''), SelectBackground (Some ''b.png''),
                 LoadCompletes 1 (Some (4, 3)), LoadCompletes 0 (Some (16, 9))] initialShader)
     = Some \<lparr>texSrc = ''a.png'', texImage = Some (16, 9)\<rparr>
   \<and> backgroundUrl
     (shaderRun [SelectBackground (Some ''a.png''), SelectBackground None,
                 LoadCompletes 0 (Some (16, 9))] initialShader) = None
   \<and> currentTexture
     (shaderRun [SelectBackground (Some ''a.png''), SelectBackground None,
                 LoadCompletes 0 (Some (16, 9))] initialShader)
     = Some \<lparr>texSrc = ''a.png'', texImage = Some (16, 9)\<rparr>"
  by (simp add: initialShader_def textureEffect_def onLoad_def)

text \<open>
  Claim C9, amended. Loads are never cancelled. Selecting another image starts its load and
  leaves the current texture and the earlier loads in place; clearing the selection sets the
  current texture to none at once and leaves the loads in flight; and whenever a load in
  flight completes, its texture becomes the current texture used for rendering, whether or
  not its image is still the selected one.
\<close>

theorem loads_never_cancelled:
  "(i < length (inFlight s) \<longrightarrow>
      currentTexture (shaderStep (LoadCompletes i img) s)
        = Some \<lparr>texSrc = inFlight s ! i, texImage = img\<rparr>
      \<and> backgroundUrl (shaderStep (LoadCompletes i img) s) = backgroundUrl s)
   \<and> (Some url \<noteq> backgroundUrl s \<and> url \<noteq> [] \<longrightarrow>
      currentTexture (shaderStep (SelectBackground (Some url)) s) = currentTexture s
      \<and> inFlight (shaderStep (SelectBackground (Some url)) s) = inFlight s @ [url])
   \<and> (backgroundUrl s \<noteq> None \<longrightarrow>
      currentTexture (shaderStep (SelectBackground None) s) = None
      \<and> inFlight (shaderStep (SelectBackground None) s) = inFlight s)"
  by (auto simp: textureEffect_def onLoad_def Let_def split: option.splits)

theorem loads_never_cancelled_witness:
  "(0 :: nat) < length (inFlight (shaderRun [SelectBackground (Some ''a.png''),
        SelectBackground None] initialShader))
   \<and> currentTexture (shaderStep (LoadCompletes 0 (Some (16, 9)))
        (shaderRun [SelectBackground (Some ''a.png''), SelectBackground None] initialShader))
      = Some \<lparr>texSrc = ''a.png'', texImage = Some (16, 9)\<rparr>
   \<and> backgroundUrl (shaderStep (LoadCompletes 0 (Some (16, 9)))
        (shaderRun [SelectBackground (Some ''a.png''), SelectBackground None] initialShader))
      = None
   \<and> Some ''b.png'' \<noteq> backgroundUrl initialShader
   \<and> inFlight (shaderStep (SelectBackground (Some ''b.png'')) initialShader) = [''b.png'']
   \<and> backgroundUrl (shaderRun [SelectBackground (Some ''a.png'')] initialShader) \<noteq> None
   \<and> currentTexture (shaderStep (SelectBackground None)
        (shaderRun [SelectBackground (Some ''a.png'')] initialShader)) = None"
proof -
  let ?s = "shaderRun [SelectBackground (Some ''a.png''), SelectBackground None] initialShader"
  let ?t = "shaderRun [SelectBackground (Some ''a.png'')] initialShader"
  have f: "inFlight ?s = [''a.png'']" "backgroundUrl ?s = None"
    by (simp_all add: initialShader_def textureEffect_def)
  have g: "backgroundUrl initialShader = None" "inFlight initialShader = []"
    by (simp_all add: initialShader_def)
  have k: "backgroundUrl ?t \<noteq> None" by (simp add: initialShader_def textureEffect_def)
  have a: "currentTexture (shaderStep (LoadCompletes 0 (Some (16, 9))) ?s)
      = Some \<lparr>texSrc = ''a.png'', texImage = Some (16, 9)\<rparr>
      \<and> backgroundUrl (shaderStep (LoadCompletes 0 (Some (16, 9))) ?s) = None"
    using loads_never_cancelled [of 0 ?s "Some (16, 9)"] f by simp
  have b: "inFlight (shaderStep (SelectBackground (Some ''b.png'')) initialShader) = [''b.png'']"
    using loads_never_cancelled [of _ initialShader _ "''b.png''"] g by simp
  have c: "currentTexture (shaderStep (SelectBackground None) ?t) = None"
    using loads_never_cancelled [of _ ?t] k by blast
  show ?thesis using f g k a b c by simp
qed

end
